theory Spec2Isabelle
  imports Main
begin

section \<open>JavaScript values\<close>

text \<open>
  The producer handles arbitrary JavaScript values: the payload \<open>msg\<close>, the fields of the
  \<open>options\<close> object and the properties stored in \<open>amqpRPCQueues[queue]\<close>. Only their
  truthiness and their identity matter to the code. A JavaScript number is a double: the
  special values are kept apart and a finite non-zero double is \<open>Finite m e\<close>, standing for
  \<open>m * 2 ^ e\<close>. \<open>JDeferred a\<close> is a reference to the deferred object number \<open>a\<close> made by
  \<open>Promise.defer()\<close>.
\<close>

datatype jsnum = NaN | PosInfinity | NegInfinity | NegZero | Finite int int

datatype jsval =
    JUndefined
  | JNull
  | JBool bool
  | JNumber jsnum
  | JString string
  | JObject "(string \<times> jsval) list"
  | JDeferred nat

text \<open>ToBoolean, as \<open>!msg\<close>, \<open>options || ...\<close> and \<open>if (options.rpc)\<close> apply it.\<close>

fun truthy :: "jsval \<Rightarrow> bool" where
  "truthy JUndefined = False"
| "truthy JNull = False"
| "truthy (JBool b) = b"
| "truthy (JNumber NaN) = False"
| "truthy (JNumber NegZero) = False"
| "truthy (JNumber (Finite m e)) = (m \<noteq> 0)"
| "truthy (JNumber PosInfinity) = True"
| "truthy (JNumber NegInfinity) = True"
| "truthy (JString s) = (s \<noteq> [])"
| "truthy (JObject fs) = True"
| "truthy (JDeferred a) = True"

datatype error = TypeError | Failure string

type_synonym buffer = string

section \<open>The data of the producer\<close>

text \<open>
  The \<open>options\<close> object of a produce call, with the fields the producer reads or writes;
  a field the caller left out is \<open>JUndefined\<close>.
\<close>

record options =
  rpc :: jsval
  routingKey :: jsval
  persistent :: jsval
  durable :: jsval
  correlationId :: jsval
  replyTo :: jsval

text \<open>An incoming message: \<open>_msg.properties.correlationId\<close> is a string or undefined.\<close>

record message =
  content :: buffer
  properties_correlationId :: "string option"

text \<open>
  The collaborators the file requires but does not define: \<open>this.conn.config\<close> (hostname
  and retry delay) and the codec \<open>parsers.out\<close> / \<open>parsers.in\<close> of \<open>./message-parsers\<close>, which
  the specification treats as a pure, synchronous transform. They are parameters of every
  function below.
\<close>

record collab =
  hostname :: string
  timeout :: nat
  parsers_out :: "jsval \<Rightarrow> options \<Rightarrow> buffer"
  parsers_in :: "message \<Rightarrow> jsval"

text \<open>
  The calls the producer makes to its collaborators, in the order it makes them:
  \<open>conn.get()\<close>, \<open>transport.info\<close>, \<open>transport.error\<close>, \<open>channel.assertQueue\<close>,
  \<open>channel.consume\<close> (with the destination whose \<open>maybeAnswer\<close> handler it installs, and
  \<open>noAck\<close>), \<open>channel.sendToQueue\<close>, \<open>channel.publish\<close> and \<open>utils.timeoutPromise\<close>.
  The first argument of a channel call is the channel it is made on.
\<close>

datatype event =
    ConnGet
  | TransportInfo string string jsval
  | TransportError string error
  | AssertQueue nat string bool bool
  | Consume nat string string bool
  | SendToQueue nat string buffer options
  | Publish nat string jsval buffer options
  | TimeoutPromise nat

text \<open>
  The state shared by all calls: the module variable \<open>amqpRPCQueues\<close> (destination name to
  an object whose own properties are the key \<open>queue\<close> and the correlation ids),
  \<open>this.channel\<close>, the deferred objects made so far (\<open>None\<close>: still pending, \<open>Some v\<close>:
  resolved with \<open>v\<close>), the listeners of the connection's \<open>close\<close> event (the destination
  each one clears, and whether it was registered with \<open>once\<close>), and the trace of calls.
  Property lookup is on own properties: names inherited from \<open>Object.prototype\<close> are not
  modelled.
\<close>

record state =
  amqpRPCQueues :: "string \<rightharpoonup> (string \<rightharpoonup> jsval)"
  channel :: "nat option"
  deferreds :: "jsval option list"
  listeners :: "(string \<times> bool) list"
  trace :: "event list"

text \<open>
  What the broker and the libraries answer during one attempt of \<open>produce\<close>: the outcome of
  \<open>conn.get()\<close>, of \<open>assertQueue\<close> (the \<open>_queue.queue\<close> of the reply), of \<open>consume\<close>, of
  \<open>sendToQueue\<close> / \<open>publish\<close> (a boolean, or an exception), and the value of
  \<open>uuid.v4()\<close>. \<open>Inl\<close> is a rejection or an exception.
\<close>

record env =
  conn_get :: "error + nat"
  assertQueue :: "error + string"
  consume :: "error + unit"
  send :: "error + bool"
  uuid_v4 :: string

text \<open>How a promise returned to a caller ends: fulfilled, rejected, or following deferred \<open>a\<close>.\<close>

datatype settled = Fulfilled jsval | Rejected error | Follows nat

definition init :: state where
  "init = \<lparr>amqpRPCQueues = Map.empty, channel = None, deferreds = [], listeners = [], trace = []\<rparr>"

definition emit :: "event \<Rightarrow> state \<Rightarrow> state" where
  "emit ev s = s\<lparr>trace := trace s @ [ev]\<rparr>"

text \<open>\<open>obj[k]\<close>: the value of an own property, \<open>undefined\<close> when there is none.\<close>

definition own :: "(string \<rightharpoonup> jsval) \<Rightarrow> string \<Rightarrow> jsval" where
  "own obj k = (case obj k of None \<Rightarrow> JUndefined | Some v \<Rightarrow> v)"

text \<open>\<open>deferred.resolve(v)\<close>: settles a pending promise; a settled one stays as it is.\<close>

definition resolve :: "nat \<Rightarrow> jsval \<Rightarrow> state \<Rightarrow> state" where
  "resolve a v s =
     (if a < length (deferreds s) \<and> deferreds s ! a = None
      then s\<lparr>deferreds := (deferreds s)[a := Some v]\<rparr> else s)"

section \<open>The response-queue registry\<close>

text \<open>
  The callbacks of \<open>createRpcQueue\<close> (source lines 20 to 30), run once \<open>assertQueue\<close> has
  answered with the queue \<open>name\<close>: store the name, register the \<open>close\<close> listener with
  \<open>addListener\<close> (so \<open>once\<close> is false), start the consumer, resolve with \<open>queue\<close>.
\<close>

definition createRpcQueue_then ::
  "env \<Rightarrow> string \<Rightarrow> string \<Rightarrow> state \<Rightarrow> (error + jsval) \<times> state" where
  "createRpcQueue_then e queue name s =
     (case amqpRPCQueues s queue of
        None \<Rightarrow> (Inl TypeError, s)
      | Some obj \<Rightarrow>
          (let s1 = s\<lparr>amqpRPCQueues := (amqpRPCQueues s)(queue \<mapsto> obj(''queue'' \<mapsto> JString name))\<rparr>;
               s2 = s1\<lparr>listeners := listeners s1 @ [(queue, False)]\<rparr>
           in case channel s2 of
                None \<Rightarrow> (Inl TypeError, s2)
              | Some ch \<Rightarrow>
                  (let s3 = emit (Consume ch name queue True) s2
                   in case consume e of
                        Inl err \<Rightarrow> (Inl err, s3)
                      | Inr u \<Rightarrow> (Inr (JString queue), s3))))"

text \<open>
  \<open>createRpcQueue\<close> (source lines 12 to 31). With a truthy \<open>amqpRPCQueues[queue].queue\<close> it
  returns \<open>Promise.resolve()\<close>; otherwise it declares \<open>queue:hostname:res\<close> durable and
  exclusive.
\<close>

definition createRpcQueue ::
  "collab \<Rightarrow> env \<Rightarrow> string \<Rightarrow> state \<Rightarrow> (error + jsval) \<times> state" where
  "createRpcQueue c e queue s =
     (case amqpRPCQueues s queue of
        None \<Rightarrow> (Inl TypeError, s)
      | Some obj \<Rightarrow>
          if truthy (own obj ''queue'') then (Inr JUndefined, s)
          else (case channel s of
                  None \<Rightarrow> (Inl TypeError, s)
                | Some ch \<Rightarrow>
                    (let resQueue = queue @ '':'' @ hostname c @ '':res'';
                         s1 = emit (AssertQueue ch resQueue True True) s
                     in case assertQueue e of
                          Inl err \<Rightarrow> (Inl err, s1)
                        | Inr name \<Rightarrow> createRpcQueue_then e queue name s1)))"

text \<open>
  The part of \<open>createRpcQueue\<close> that runs in the caller's own turn (source lines 13 to
  19): either the promise is settled at once (\<open>Some\<close>), or \<open>assertQueue\<close> has been called
  and the promise waits for the broker's answer (\<open>None\<close>), the callback
  \<open>createRpcQueue_then\<close> running when the answer comes. Other callbacks, a second call of
  \<open>createRpcQueue\<close> among them, can run in between.
\<close>

definition createRpcQueue_call ::
  "collab \<Rightarrow> string \<Rightarrow> state \<Rightarrow> (error + jsval) option \<times> state" where
  "createRpcQueue_call c queue s =
     (case amqpRPCQueues s queue of
        None \<Rightarrow> (Some (Inl TypeError), s)
      | Some obj \<Rightarrow>
          if truthy (own obj ''queue'') then (Some (Inr JUndefined), s)
          else (case channel s of
                  None \<Rightarrow> (Some (Inl TypeError), s)
                | Some ch \<Rightarrow>
                    (let resQueue = queue @ '':'' @ hostname c @ '':res''
                     in (None, emit (AssertQueue ch resQueue True True) s))))"

text \<open>
  The consumer callback made by \<open>maybeAnswer(queue)\<close> (source lines 39 to 49), applied to a
  delivered message. \<open>Inl\<close> is an exception thrown out of the callback; both places that can
  throw (reading a property of an undefined entry, calling a \<open>resolve\<close> that is not there)
  come before any update. A missing correlation id reads the property named
  \<open>undefined\<close>.
\<close>

definition maybeAnswer :: "collab \<Rightarrow> string \<Rightarrow> message \<Rightarrow> state \<Rightarrow> error + state" where
  "maybeAnswer c queue msg s =
     (let corrIdA = (case properties_correlationId msg of None \<Rightarrow> ''undefined'' | Some k \<Rightarrow> k)
      in case amqpRPCQueues s queue of
           None \<Rightarrow> Inl TypeError
         | Some obj \<Rightarrow>
             (case own obj corrIdA of
                JUndefined \<Rightarrow> Inr s
              | JDeferred a \<Rightarrow>
                  (let m = parsers_in c msg;
                       s1 = resolve a m s;
                       s2 = emit (TransportInfo ''amqp:producer'' (''['' @ queue @ ''] < '') m) s1
                   in Inr (s2\<lparr>amqpRPCQueues := (amqpRPCQueues s2)(queue \<mapsto> obj(corrIdA := None))\<rparr>))
              | other \<Rightarrow> Inl TypeError))"

text \<open>
  The connection emits \<open>close\<close>: every registered listener runs, in order of registration
  (source line 24: \<open>amqpRPCQueues[queue].queue = null\<close>), and the listeners registered with
  \<open>once\<close> are dropped, as an event emitter does.
\<close>

fun run_listeners :: "(string \<times> bool) list \<Rightarrow> state \<Rightarrow> error + state" where
  "run_listeners [] s = Inr s"
| "run_listeners ((queue, once) # ls) s =
     (case amqpRPCQueues s queue of
        None \<Rightarrow> Inl TypeError
      | Some obj \<Rightarrow>
          run_listeners ls (s\<lparr>amqpRPCQueues := (amqpRPCQueues s)(queue \<mapsto> obj(''queue'' \<mapsto> JNull))\<rparr>))"

definition close_event :: "state \<Rightarrow> error + state" where
  "close_event s =
     (case run_listeners (listeners s) s of
        Inl err \<Rightarrow> Inl err
      | Inr s1 \<Rightarrow> Inr (s1\<lparr>listeners := filter (\<lambda>l. \<not> snd l) (listeners s1)\<rparr>))"

section \<open>The producer\<close>

text \<open>\<open>publishOrSendToQueue\<close> (source lines 52 to 58).\<close>

definition publishOrSendToQueue ::
  "env \<Rightarrow> string \<Rightarrow> buffer \<Rightarrow> options \<Rightarrow> state \<Rightarrow> (error + bool) \<times> state" where
  "publishOrSendToQueue e queue msg opts s =
     (case channel s of
        None \<Rightarrow> (Inl TypeError, s)
      | Some ch \<Rightarrow>
          if \<not> truthy (routingKey opts)
          then (send e, emit (SendToQueue ch queue msg opts) s)
          else (send e, emit (Publish ch queue (routingKey opts) msg opts) s))"

text \<open>
  The callback of \<open>checkRpc\<close> that runs once the response queue is ready (source lines 77
  to 89), one synchronous run: stamp \<open>correlationId\<close> and \<open>replyTo\<close> on the options, send,
  then make the deferred and store it under the correlation id. The options object is the
  caller's, so the updated object is returned with the result.
\<close>

definition checkRpc_then ::
  "env \<Rightarrow> string \<Rightarrow> buffer \<Rightarrow> options \<Rightarrow> state \<Rightarrow> settled \<times> state \<times> options" where
  "checkRpc_then e queue msg opts s =
     (let corrId = uuid_v4 e;
          opts1 = opts\<lparr>correlationId := JString corrId\<rparr>
      in case amqpRPCQueues s queue of
           None \<Rightarrow> (Rejected TypeError, s, opts1)
         | Some obj0 \<Rightarrow>
             (let opts2 = opts1\<lparr>replyTo := own obj0 ''queue''\<rparr>
              in case publishOrSendToQueue e queue msg opts2 s of
                   (Inl err, s1) \<Rightarrow> (Rejected err, s1, opts2)
                 | (Inr b, s1) \<Rightarrow>
                     (case amqpRPCQueues s1 queue of
                        None \<Rightarrow> (Rejected TypeError, s1, opts2)
                      | Some obj \<Rightarrow>
                          (let a = length (deferreds s1);
                               s2 = s1\<lparr>deferreds := deferreds s1 @ [None],
                                        amqpRPCQueues :=
                                          (amqpRPCQueues s1)(queue \<mapsto> obj(corrId \<mapsto> JDeferred a))\<rparr>
                           in (Follows a, s2, opts2)))))"

text \<open>\<open>checkRpc\<close> (source lines 67 to 93).\<close>

definition checkRpc ::
  "collab \<Rightarrow> env \<Rightarrow> string \<Rightarrow> buffer \<Rightarrow> options \<Rightarrow> state \<Rightarrow> settled \<times> state \<times> options" where
  "checkRpc c e queue msg opts s =
     (let opts1 = opts\<lparr>persistent := JBool True\<rparr>
      in if truthy (rpc opts1)
         then (let s1 = (case amqpRPCQueues s queue of
                           None \<Rightarrow> s\<lparr>amqpRPCQueues := (amqpRPCQueues s)(queue \<mapsto> Map.empty)\<rparr>
                         | Some obj \<Rightarrow> s)
               in case createRpcQueue c e queue s1 of
                    (Inl err, s2) \<Rightarrow> (Rejected err, s2, opts1)
                  | (Inr v, s2) \<Rightarrow> checkRpc_then e queue msg opts1 s2)
         else (case publishOrSendToQueue e queue msg opts1 s of
                 (Inl err, s1) \<Rightarrow> (Rejected err, s1, opts1)
               | (Inr b, s1) \<Rightarrow> (Fulfilled (JBool b), s1, opts1)))"

text \<open>
  The first callback of \<open>produce\<close> (source lines 104 to 117), run with the channel that
  \<open>conn.get()\<close> gave. It assigns to the parameters \<open>msg\<close> and \<open>options\<close> of \<open>produce\<close>, which
  the retry reads, so their new values are returned. \<open>options\<close> is \<open>None\<close> when the caller
  passed none.
\<close>

definition default_options :: options where
  "default_options =
     \<lparr>rpc = JUndefined, routingKey = JUndefined, persistent = JBool True, durable = JBool True,
      correlationId = JUndefined, replyTo = JUndefined\<rparr>"

definition produce_then ::
  "collab \<Rightarrow> env \<Rightarrow> nat \<Rightarrow> string \<Rightarrow> jsval \<Rightarrow> options option \<Rightarrow> state
     \<Rightarrow> settled \<times> state \<times> jsval \<times> options option" where
  "produce_then c e ch queue msg opts s =
     (let s1 = s\<lparr>channel := Some ch\<rparr>;
          msg1 = (if \<not> truthy msg then JNull else msg);
          opts1 = (case opts of None \<Rightarrow> default_options | Some o1 \<Rightarrow> o1);
          s2 = emit (TransportInfo ''amqp:producer'' (''['' @ queue @ ''] > '') msg1) s1
      in case checkRpc c e queue (parsers_out c msg1 opts1) opts1 s2 of
           (r, s3, opts2) \<Rightarrow> (r, s3, msg1, Some opts2))"

text \<open>
  One pass through \<open>produce\<close> up to its \<open>catch\<close> (source lines 103 to 117): \<open>conn.get()\<close>,
  then the callback.
\<close>

definition attempt ::
  "collab \<Rightarrow> env \<Rightarrow> string \<Rightarrow> jsval \<Rightarrow> options option \<Rightarrow> state
     \<Rightarrow> settled \<times> state \<times> jsval \<times> options option" where
  "attempt c e queue msg opts s =
     (let s0 = emit ConnGet s
      in case conn_get e of
           Inl err \<Rightarrow> (Rejected err, s0, msg, opts)
         | Inr ch \<Rightarrow> produce_then c e ch queue msg opts s0)"

text \<open>The \<open>catch\<close> callback up to the retry (source lines 120 and 121).\<close>

definition on_error :: "collab \<Rightarrow> error \<Rightarrow> state \<Rightarrow> state" where
  "on_error c err s = emit (TimeoutPromise (timeout c)) (emit (TransportError ''amqp:producer'' err) s)"

text \<open>
  \<open>produce\<close> (source lines 102 to 126). The retry has no bound, so the run is driven by the
  list of what the environment answers on each attempt: one element per attempt. When the
  list ends before an attempt succeeds the promise is still unsettled: \<open>None\<close>.
\<close>

fun produce ::
  "collab \<Rightarrow> env list \<Rightarrow> string \<Rightarrow> jsval \<Rightarrow> options option \<Rightarrow> state \<Rightarrow> settled option \<times> state" where
  "produce c [] queue msg opts s = (None, s)"
| "produce c (e # es) queue msg opts s =
     (case attempt c e queue msg opts s of
        (Rejected err, s1, msg1, opts1) \<Rightarrow> produce c es queue msg1 opts1 (on_error c err s1)
      | (r, s1, msg1, opts1) \<Rightarrow> (Some r, s1))"

section \<open>Reading a trace\<close>

text \<open>
  The part of a trace that shows the retry loop: the calls of \<open>conn.get()\<close> (one at the
  start of every attempt), of \<open>transport.error\<close> and of \<open>utils.timeoutPromise\<close>.
\<close>

fun is_retry_event :: "event \<Rightarrow> bool" where
  "is_retry_event ConnGet = True"
| "is_retry_event (TransportError tag err) = True"
| "is_retry_event (TimeoutPromise ms) = True"
| "is_retry_event ev = False"

definition retry_view :: "event list \<Rightarrow> event list" where
  "retry_view tr = filter is_retry_event tr"

text \<open>The payloads given to \<open>transport.info\<close>, and the buffers given to the channel to send.\<close>

fun payloads :: "event list \<Rightarrow> jsval list" where
  "payloads [] = []"
| "payloads (TransportInfo tag txt m # tr) = m # payloads tr"
| "payloads (ev # tr) = payloads tr"

fun sent :: "event list \<Rightarrow> buffer list" where
  "sent [] = []"
| "sent (SendToQueue ch queue b opts # tr) = b # sent tr"
| "sent (Publish ch queue k b opts # tr) = b # sent tr"
| "sent (ev # tr) = sent tr"

text \<open>The options of the messages given to the channel to send.\<close>

fun sent_options :: "event list \<Rightarrow> options list" where
  "sent_options [] = []"
| "sent_options (SendToQueue ch queue b opts # tr) = opts # sent_options tr"
| "sent_options (Publish ch queue k b opts # tr) = opts # sent_options tr"
| "sent_options (ev # tr) = sent_options tr"

text \<open>The messages given to the channel to send: destination, buffer and options.\<close>

fun sends :: "event list \<Rightarrow> (string \<times> buffer \<times> options) list" where
  "sends [] = []"
| "sends (SendToQueue ch queue b opts # tr) = (queue, b, opts) # sends tr"
| "sends (Publish ch queue k b opts # tr) = (queue, b, opts) # sends tr"
| "sends (ev # tr) = sends tr"

text \<open>The calls of \<open>channel.consume\<close> in a trace: the queues consumers were asked for.\<close>

fun consumers :: "event list \<Rightarrow> string list" where
  "consumers [] = []"
| "consumers (Consume ch name queue noAck # tr) = name # consumers tr"
| "consumers (ev # tr) = consumers tr"

text \<open>
  The options the callback of \<open>produce\<close> works with (source line 112), and the relation of
  two options objects that agree on the fields the producer never assigns: \<open>rpc\<close>,
  \<open>routingKey\<close> and \<open>durable\<close>. It assigns \<open>persistent\<close>, \<open>correlationId\<close> and \<open>replyTo\<close>.
  A codec is blind to those three when its output is the same for options that agree on
  the others.
\<close>

definition given_options :: "options option \<Rightarrow> options" where
  "given_options opts = (case opts of None \<Rightarrow> default_options | Some o1 \<Rightarrow> o1)"

definition same_request :: "options \<Rightarrow> options \<Rightarrow> bool" where
  "same_request a b \<longleftrightarrow> rpc a = rpc b \<and> routingKey a = routingKey b \<and> durable a = durable b"


text \<open>The queue declarations in a trace.\<close>

fun declarations :: "event list \<Rightarrow> string list" where
  "declarations [] = []"
| "declarations (AssertQueue ch name d x # tr) = name # declarations tr"
| "declarations (ev # tr) = declarations tr"

section \<open>An invariant of the registry\<close>

text \<open>
  Every destination whose object holds a truthy \<open>queue\<close> has a \<open>close\<close> listener, no
  listener was registered with \<open>once\<close>, and every listener's destination has its object.
  The invariant holds in \<open>init\<close> and is kept by \<open>produce\<close>, \<open>maybeAnswer\<close> and
  \<open>close_event\<close>.
\<close>

definition registry_inv :: "state \<Rightarrow> bool" where
  "registry_inv s \<longleftrightarrow>
     (\<forall>q obj. amqpRPCQueues s q = Some obj \<longrightarrow> truthy (own obj ''queue'')
        \<longrightarrow> (q, False) \<in> set (listeners s))
     \<and> (\<forall>q once. (q, once) \<in> set (listeners s) \<longrightarrow> \<not> once \<and> amqpRPCQueues s q \<noteq> None)"

section \<open>Sample values\<close>

text \<open>
  A gateway host sending to \<open>service-x\<close>, with a codec that encodes every payload as
  \<open>ping\<close> and decodes every reply as \<open>{op: "pong"}\<close>; a broker that grants channel 1,
  answers the declaration with the requested name and accepts the send; a broker whose
  connection is down; and the state after one RPC produce.
\<close>

definition c0 :: collab where
  "c0 = \<lparr>hostname = ''gateway'', timeout = 1000,
         parsers_out = (\<lambda>m opts. ''ping''),
         parsers_in = (\<lambda>m. JObject [(''op'', JString ''pong'')])\<rparr>"

definition e_ok :: env where
  "e_ok = \<lparr>conn_get = Inr 1, assertQueue = Inr ''service-x:gateway:res'', consume = Inr (),
           send = Inr True, uuid_v4 = ''c-1''\<rparr>"

definition e_down :: env where
  "e_down = \<lparr>conn_get = Inl (Failure ''closed''), assertQueue = Inl (Failure ''closed''),
             consume = Inl (Failure ''closed''), send = Inl (Failure ''closed''), uuid_v4 = ''c-0''\<rparr>"

definition e_throw :: env where
  "e_throw = \<lparr>conn_get = Inr 1, assertQueue = Inr ''service-x:gateway:res'', consume = Inr (),
              send = Inl (Failure ''closed''), uuid_v4 = ''c-2''\<rparr>"

definition rpc_options :: options where
  "rpc_options = default_options\<lparr>rpc := JBool True\<rparr>"

definition ping :: jsval where
  "ping = JObject [(''op'', JString ''ping'')]"

definition s_rpc :: state where
  "s_rpc = snd (produce c0 [e_ok] ''service-x'' ping (Some rpc_options) init)"

definition reply :: "string option \<Rightarrow> message" where
  "reply cid = \<lparr>content = ''pong'', properties_correlationId = cid\<rparr>"

text \<open>The state in which \<open>checkRpc\<close> first calls \<open>createRpcQueue\<close> for \<open>service-x\<close>.\<close>

definition s_entry :: state where
  "s_entry = init\<lparr>amqpRPCQueues := [''service-x'' \<mapsto> Map.empty], channel := Some 1\<rparr>"

text \<open>
  A codec that shows what it was given: \<open>c1\<close> encodes the payload and ignores the
  options, \<open>c_props\<close> writes the \<open>persistent\<close> flag it finds in the options.
\<close>

fun encode :: "jsval \<Rightarrow> buffer" where
  "encode JNull = ''null''"
| "encode (JString s) = s"
| "encode (JBool b) = (if b then ''true'' else ''false'')"
| "encode v = ''{...}''"

definition c1 :: collab where
  "c1 = c0\<lparr>parsers_out := (\<lambda>m opts. encode m)\<rparr>"

definition c_props :: collab where
  "c_props = c0\<lparr>parsers_out :=
      (\<lambda>m opts. if persistent opts = JBool True then ''persistent'' else ''transient'')\<rparr>"

text \<open>A broker that rejects \<open>consume\<close> and answers everything else.\<close>

definition e_cfail :: env where
  "e_cfail = \<lparr>conn_get = Inr 1, assertQueue = Inr ''service-x:gateway:res'',
              consume = Inl (Failure ''closed''), send = Inr True, uuid_v4 = ''c-3''\<rparr>"

definition transient_options :: options where
  "transient_options = default_options\<lparr>persistent := JBool False\<rparr>"

text \<open>
  Two calls of \<open>createRpcQueue\<close> for \<open>service-x\<close> that overlap: both are made before the
  broker has answered the first declaration, then the two callbacks run.
\<close>

definition s_overlap :: state where
  "s_overlap =
     (let s1 = snd (createRpcQueue_call c0 ''service-x'' s_entry);
          s2 = snd (createRpcQueue_call c0 ''service-x'' s1);
          s3 = snd (createRpcQueue_then e_ok ''service-x'' ''service-x:gateway:res'' s2)
      in snd (createRpcQueue_then e_ok ''service-x'' ''service-x:gateway:res'' s3))"

section \<open>Evaluation of the sample state\<close>

lemmas demo_defs = c0_def e_ok_def e_down_def e_throw_def rpc_options_def ping_def
  default_options_def reply_def init_def s_entry_def

lemmas step_defs = attempt_def produce_then_def checkRpc_def checkRpc_then_def createRpcQueue_def
  createRpcQueue_then_def publishOrSendToQueue_def on_error_def emit_def own_def Let_def

lemma s_rpc_val:
  "s_rpc = \<lparr>amqpRPCQueues =
       [''service-x'' \<mapsto> [''queue'' \<mapsto> JString ''service-x:gateway:res'', ''c-1'' \<mapsto> JDeferred 0]],
     channel = Some 1, deferreds = [None], listeners = [(''service-x'', False)],
     trace = [ConnGet, TransportInfo ''amqp:producer'' ''[service-x] > '' ping,
       AssertQueue 1 ''service-x:gateway:res'' True True,
       Consume 1 ''service-x:gateway:res'' ''service-x'' True,
       SendToQueue 1 ''service-x'' ''ping''
         (rpc_options\<lparr>correlationId := JString ''c-1'',
                       replyTo := JString ''service-x:gateway:res''\<rparr>)]\<rparr>"
  by (simp add: s_rpc_def demo_defs step_defs)

lemma declarations_append: "declarations (xs @ ys) = declarations xs @ declarations ys"
  by (induction xs rule: declarations.induct) simp_all

section \<open>Reply dispatch\<close>

text \<open>
  C3. A reply arrives for destination \<open>queue\<close> with correlation id \<open>cid\<close>, and the object of
  the destination holds a pending deferred \<open>a\<close> under \<open>cid\<close>. Then the consumer callback
  returns normally; of all deferreds exactly number \<open>a\<close> changes, and it is resolved with
  the payload decoded by \<open>parsers.in\<close>; the entry \<open>cid\<close> is deleted and no other entry of
  the registry changes; the reply is logged. A second delivery with the same correlation
  id then finds no entry and leaves the state as it is.
\<close>

theorem dispatch_resolves_waiter_once:
  assumes "amqpRPCQueues s queue = Some obj"
    and "properties_correlationId msg = Some cid"
    and "obj cid = Some (JDeferred a)"
    and "a < length (deferreds s)"
    and "deferreds s ! a = None"
    and "properties_correlationId msg2 = Some cid"
  shows "\<exists>s'. maybeAnswer c queue msg s = Inr s'
           \<and> deferreds s' = (deferreds s)[a := Some (parsers_in c msg)]
           \<and> amqpRPCQueues s' = (amqpRPCQueues s)(queue \<mapsto> obj(cid := None))
           \<and> trace s' = trace s @
                [TransportInfo ''amqp:producer'' (''['' @ queue @ ''] < '') (parsers_in c msg)]
           \<and> channel s' = channel s \<and> listeners s' = listeners s
           \<and> maybeAnswer c queue msg2 s' = Inr s'"
  using assms
  by (simp add: maybeAnswer_def own_def resolve_def emit_def Let_def)

text \<open>
  The state after one RPC produce to \<open>service-x\<close> holds the pending deferred 0 under
  \<open>c-1\<close>; the reply carrying \<open>c-1\<close> resolves it and a repeated delivery changes nothing.
\<close>

theorem dispatch_resolves_waiter_once_witness:
  "amqpRPCQueues s_rpc ''service-x'' =
      Some [''queue'' \<mapsto> JString ''service-x:gateway:res'', ''c-1'' \<mapsto> JDeferred 0]
   \<and> deferreds s_rpc = [None]
   \<and> (\<exists>s'. maybeAnswer c0 ''service-x'' (reply (Some ''c-1'')) s_rpc = Inr s'
         \<and> deferreds s' = [Some (JObject [(''op'', JString ''pong'')])]
         \<and> amqpRPCQueues s' ''service-x'' = Some [''queue'' \<mapsto> JString ''service-x:gateway:res'']
         \<and> maybeAnswer c0 ''service-x'' (reply (Some ''c-1'')) s' = Inr s')"
proof -
  let ?obj = "[''queue'' \<mapsto> JString ''service-x:gateway:res'', ''c-1'' \<mapsto> JDeferred 0]"
  have h1: "amqpRPCQueues s_rpc ''service-x'' = Some ?obj" by (simp add: s_rpc_val)
  have h2: "properties_correlationId (reply (Some ''c-1'')) = Some ''c-1''" by (simp add: reply_def)
  have h3: "?obj ''c-1'' = Some (JDeferred 0)" by simp
  have h4: "0 < length (deferreds s_rpc)" by (simp add: s_rpc_val)
  have h5: "deferreds s_rpc ! 0 = None" by (simp add: s_rpc_val)
  from dispatch_resolves_waiter_once [OF h1 h2 h3 h4 h5 h2, of c0]
  obtain s' where s': "maybeAnswer c0 ''service-x'' (reply (Some ''c-1'')) s_rpc = Inr s'"
    "deferreds s' = (deferreds s_rpc)[0 := Some (parsers_in c0 (reply (Some ''c-1'')))]"
    "amqpRPCQueues s' = (amqpRPCQueues s_rpc)(''service-x'' \<mapsto> ?obj(''c-1'' := None))"
    "maybeAnswer c0 ''service-x'' (reply (Some ''c-1'')) s' = Inr s'"
    by blast
  have "deferreds s' = [Some (JObject [(''op'', JString ''pong'')])]"
    using s'(2) by (simp add: s_rpc_val c0_def)
  moreover have "amqpRPCQueues s' ''service-x'' = Some [''queue'' \<mapsto> JString ''service-x:gateway:res'']"
    using s'(3) by (simp add: fun_upd_twist)
  ultimately show ?thesis using h1 s'(1,4) by (simp add: s_rpc_val)
qed

text \<open>
  A reply whose correlation id is missing or names no property of the destination's object
  is ignored: the callback returns with the state unchanged.
\<close>

lemma maybeAnswer_unknown:
  assumes "amqpRPCQueues s queue = Some obj"
    and "obj (case properties_correlationId msg of None \<Rightarrow> ''undefined'' | Some k \<Rightarrow> k) = None"
  shows "maybeAnswer c queue msg s = Inr s"
  using assms by (simp add: maybeAnswer_def own_def)

text \<open>
  C8. A reply with no matching pending entry is to be ignored without an error. The object
  of a destination keeps the response-queue name under the key \<open>queue\<close> beside the
  correlation ids, so a reply whose correlation id is the string \<open>queue\<close> has no pending
  entry and yet passes the test \<open>!== undefined\<close>: the callback calls \<open>resolve\<close> on the
  queue name and throws a TypeError.
\<close>

theorem dispatch_queue_key_throws:
  "maybeAnswer c ''service-x'' (reply (Some ''queue'')) s_rpc = Inl TypeError"
  by (simp add: maybeAnswer_def own_def s_rpc_val reply_def)

section \<open>The response queue is declared once\<close>

text \<open>
  \<open>createRpcQueue\<close> is its synchronous part followed, once the broker has answered, by its
  callback.
\<close>

lemma createRpcQueue_split:
  "createRpcQueue c e queue s =
     (case createRpcQueue_call c queue s of
        (Some r, s1) \<Rightarrow> (r, s1)
      | (None, s1) \<Rightarrow>
          (case assertQueue e of
             Inl err \<Rightarrow> (Inl err, s1)
           | Inr name \<Rightarrow> createRpcQueue_then e queue name s1))"
  by (simp add: createRpcQueue_def createRpcQueue_call_def Let_def split: option.splits)

text \<open>
  C2, as amended. \<open>createRpcQueue\<close> called for a destination whose object holds a queue name
  (a truthy \<open>queue\<close>, which is what line 13 tests) resolves at once, in the caller's own
  turn, with \<open>undefined\<close> (the value of \<open>Promise.resolve()\<close>), makes no call and leaves the
  state as it is. Called when no name is held, it declares \<open>queue:hostname:res\<close> once; the
  name the broker answers with is stored, a successful call resolves with the destination
  name \<open>queue\<close>, and a second call made after the first one has run its callback resolves
  with \<open>undefined\<close> and declares nothing: one declaration for the two calls.
\<close>

theorem createRpcQueue_idempotent:
  "(\<forall>obj. amqpRPCQueues s queue = Some obj \<longrightarrow> truthy (own obj ''queue'')
       \<longrightarrow> createRpcQueue c e queue s = (Inr JUndefined, s)
           \<and> createRpcQueue_call c queue s = (Some (Inr JUndefined), s))
   \<and> (\<forall>obj ch n. amqpRPCQueues s queue = Some obj \<longrightarrow> \<not> truthy (own obj ''queue'')
         \<longrightarrow> channel s = Some ch \<longrightarrow> assertQueue e = Inr n \<longrightarrow> truthy (JString n) \<longrightarrow>
         (\<exists>r s1. createRpcQueue c e queue s = (r, s1)
            \<and> (consume e = Inr () \<longrightarrow> r = Inr (JString queue))
            \<and> declarations (trace s1) = declarations (trace s) @ [queue @ '':'' @ hostname c @ '':res'']
            \<and> own (the (amqpRPCQueues s1 queue)) ''queue'' = JString n
            \<and> createRpcQueue c e2 queue s1 = (Inr JUndefined, s1)
            \<and> createRpcQueue_call c queue s1 = (Some (Inr JUndefined), s1)))"
proof (intro conjI allI impI)
  fix obj
  assume h: "amqpRPCQueues s queue = Some obj" "truthy (own obj ''queue'')"
  from h show "createRpcQueue c e queue s = (Inr JUndefined, s)"
    by (simp add: createRpcQueue_def)
  from h show "createRpcQueue_call c queue s = (Some (Inr JUndefined), s)"
    by (simp add: createRpcQueue_call_def)
next
  fix obj ch n
  assume h: "amqpRPCQueues s queue = Some obj" "\<not> truthy (own obj ''queue'')"
    "channel s = Some ch" "assertQueue e = Inr n" "truthy (JString n)"
  show "\<exists>r s1. createRpcQueue c e queue s = (r, s1)
            \<and> (consume e = Inr () \<longrightarrow> r = Inr (JString queue))
            \<and> declarations (trace s1) = declarations (trace s) @ [queue @ '':'' @ hostname c @ '':res'']
            \<and> own (the (amqpRPCQueues s1 queue)) ''queue'' = JString n
            \<and> createRpcQueue c e2 queue s1 = (Inr JUndefined, s1)
            \<and> createRpcQueue_call c queue s1 = (Some (Inr JUndefined), s1)"
  proof (cases "consume e")
    case (Inl err)
    with h show ?thesis
      by (simp add: createRpcQueue_def createRpcQueue_call_def createRpcQueue_then_def own_def
          emit_def Let_def declarations_append)
  next
    case (Inr u)
    with h show ?thesis
      by (simp add: createRpcQueue_def createRpcQueue_call_def createRpcQueue_then_def own_def
          emit_def Let_def declarations_append)
  qed
qed

text \<open>
  For \<open>service-x\<close>: with the name stored the call resolves with \<open>undefined\<close> and changes
  nothing; from the state with an empty object, the first call declares
  \<open>service-x:gateway:res\<close> and the second declares nothing.
\<close>

theorem createRpcQueue_idempotent_witness:
  "amqpRPCQueues s_rpc ''service-x'' =
      Some [''queue'' \<mapsto> JString ''service-x:gateway:res'', ''c-1'' \<mapsto> JDeferred 0]
   \<and> truthy (own [''queue'' \<mapsto> JString ''service-x:gateway:res'', ''c-1'' \<mapsto> JDeferred 0] ''queue'')
   \<and> createRpcQueue c0 e_down ''service-x'' s_rpc = (Inr JUndefined, s_rpc)
   \<and> amqpRPCQueues s_entry ''service-x'' = Some Map.empty
   \<and> \<not> truthy (own Map.empty ''queue'')
   \<and> channel s_entry = Some 1
   \<and> assertQueue e_ok = Inr ''service-x:gateway:res''
   \<and> truthy (JString ''service-x:gateway:res'')
   \<and> (\<exists>s1. createRpcQueue c0 e_ok ''service-x'' s_entry = (Inr (JString ''service-x''), s1)
         \<and> declarations (trace s1) = [''service-x:gateway:res'']
         \<and> createRpcQueue c0 e_down ''service-x'' s1 = (Inr JUndefined, s1))"
proof -
  let ?obj = "[''queue'' \<mapsto> JString ''service-x:gateway:res'', ''c-1'' \<mapsto> JDeferred 0]"
  have a: "amqpRPCQueues s_rpc ''service-x'' = Some ?obj" by (simp add: s_rpc_val)
  have b: "truthy (own ?obj ''queue'')" by (simp add: own_def)
  have h1: "amqpRPCQueues s_entry ''service-x'' = Some Map.empty" by (simp add: s_entry_def)
  have h2: "\<not> truthy (own Map.empty ''queue'')" by (simp add: own_def)
  have h3: "channel s_entry = Some 1" by (simp add: s_entry_def)
  have h4: "assertQueue e_ok = Inr ''service-x:gateway:res''" by (simp add: e_ok_def)
  have h5: "consume e_ok = Inr ()" by (simp add: e_ok_def)
  have h6: "truthy (JString ''service-x:gateway:res'')" by simp
  have cached: "createRpcQueue c0 e_down ''service-x'' s_rpc = (Inr JUndefined, s_rpc)"
    using createRpcQueue_idempotent [of s_rpc "''service-x''" c0 e_down] a b by blast
  from createRpcQueue_idempotent [of s_entry "''service-x''" c0 e_ok e_down] h1 h2 h3 h4 h6
  obtain r s1 where s1: "createRpcQueue c0 e_ok ''service-x'' s_entry = (r, s1)"
    "consume e_ok = Inr () \<longrightarrow> r = Inr (JString ''service-x'')"
    "declarations (trace s1) = declarations (trace s_entry) @ [''service-x'' @ '':'' @ hostname c0 @ '':res'']"
    "createRpcQueue c0 e_down ''service-x'' s1 = (Inr JUndefined, s1)"
    by blast
  have d: "declarations (trace s1) = [''service-x:gateway:res'']"
    using s1(3) by (simp add: s_entry_def init_def c0_def)
  have r: "createRpcQueue c0 e_ok ''service-x'' s_entry = (Inr (JString ''service-x''), s1)"
    using s1(1,2) h5 by simp
  have ex: "\<exists>s1. createRpcQueue c0 e_ok ''service-x'' s_entry = (Inr (JString ''service-x''), s1)
         \<and> declarations (trace s1) = [''service-x:gateway:res'']
         \<and> createRpcQueue c0 e_down ''service-x'' s1 = (Inr JUndefined, s1)"
    by (intro exI [of _ s1] conjI r d s1(4))
  show ?thesis by (intro conjI a b cached h1 h2 h3 h4 h6 ex)
qed

text \<open>
  C2 as stated fails in two ways. The cached call resolves with \<open>undefined\<close>, not with the
  stored queue name (here \<open>service-x:gateway:res\<close>). And two calls need not declare once:
  the name is stored only by the callback of \<open>assertQueue\<close> (line 21), so a second call made
  before that callback has run finds no name either. Both calls declare the queue, both
  callbacks start a consumer and both register a listener, with no channel close in
  between.
\<close>

lemma s_overlap_val:
  "trace s_overlap =
     [AssertQueue 1 ''service-x:gateway:res'' True True,
      AssertQueue 1 ''service-x:gateway:res'' True True,
      Consume 1 ''service-x:gateway:res'' ''service-x'' True,
      Consume 1 ''service-x:gateway:res'' ''service-x'' True]
   \<and> listeners s_overlap = [(''service-x'', False), (''service-x'', False)]"
  by (simp add: s_overlap_def createRpcQueue_call_def createRpcQueue_then_def emit_def own_def
      Let_def demo_defs)

theorem createRpcQueue_twice_counterexample:
  "map_option (\<lambda>obj. own obj ''queue'') (amqpRPCQueues s_rpc ''service-x'')
      = Some (JString ''service-x:gateway:res'')
   \<and> createRpcQueue c0 e_ok ''service-x'' s_rpc = (Inr JUndefined, s_rpc)
   \<and> fst (createRpcQueue c0 e_ok ''service-x'' s_rpc) \<noteq> Inr (JString ''service-x:gateway:res'')
   \<and> fst (createRpcQueue_call c0 ''service-x'' s_entry) = None
   \<and> fst (createRpcQueue_call c0 ''service-x'' (snd (createRpcQueue_call c0 ''service-x'' s_entry)))
        = None
   \<and> declarations (trace s_overlap) = [''service-x:gateway:res'', ''service-x:gateway:res'']
   \<and> consumers (trace s_overlap) = [''service-x:gateway:res'', ''service-x:gateway:res'']
   \<and> listeners s_overlap = [(''service-x'', False), (''service-x'', False)]"
  by (simp add: s_overlap_def createRpcQueue_def createRpcQueue_call_def createRpcQueue_then_def
      emit_def own_def Let_def demo_defs s_rpc_val)

section \<open>Sending and registering the waiter\<close>

text \<open>
  C1, as amended. The callback that sends an RPC request stamps the options, performs the
  routed send and only then makes the deferred and stores it under the fresh correlation
  id, all in one synchronous run. When the send throws, the callback ends there: the
  promise is rejected and nothing was stored. When the send returns, the callback returns
  with the deferred stored, so a reply dispatched afterwards with that correlation id
  resolves it.
\<close>

theorem send_then_register:
  assumes "amqpRPCQueues s queue = Some obj" and "channel s = Some ch"
    and "opts' = opts\<lparr>correlationId := JString (uuid_v4 e), replyTo := own obj ''queue''\<rparr>"
    and "ev = (if truthy (routingKey opts) then Publish ch queue (routingKey opts) msg opts'
               else SendToQueue ch queue msg opts')"
  shows "(\<forall>err. send e = Inl err \<longrightarrow>
            checkRpc_then e queue msg opts s = (Rejected err, s\<lparr>trace := trace s @ [ev]\<rparr>, opts'))
       \<and> (\<forall>b. send e = Inr b \<longrightarrow>
            (\<exists>s2. checkRpc_then e queue msg opts s = (Follows (length (deferreds s)), s2, opts')
               \<and> trace s2 = trace s @ [ev]
               \<and> deferreds s2 = deferreds s @ [None]
               \<and> amqpRPCQueues s2 =
                   (amqpRPCQueues s)(queue \<mapsto> obj(uuid_v4 e \<mapsto> JDeferred (length (deferreds s))))
               \<and> channel s2 = channel s \<and> listeners s2 = listeners s
               \<and> (\<forall>m. properties_correlationId m = Some (uuid_v4 e) \<longrightarrow>
                     (\<exists>s3. maybeAnswer c queue m s2 = Inr s3
                        \<and> deferreds s3 = deferreds s @ [Some (parsers_in c m)]))))"
  using assms
  by (auto simp: checkRpc_then_def publishOrSendToQueue_def emit_def Let_def maybeAnswer_def own_def resolve_def nth_append)

text \<open>In the state after the first RPC produce, with a send that throws and one that returns.\<close>

theorem send_then_register_witness:
  "amqpRPCQueues s_rpc ''service-x'' =
      Some [''queue'' \<mapsto> JString ''service-x:gateway:res'', ''c-1'' \<mapsto> JDeferred 0]
   \<and> channel s_rpc = Some 1
   \<and> send e_throw = Inl (Failure ''closed'')
   \<and> fst (checkRpc_then e_throw ''service-x'' ''ping'' rpc_options s_rpc) = Rejected (Failure ''closed'')
   \<and> send e_ok = Inr True
   \<and> fst (checkRpc_then e_ok ''service-x'' ''ping'' rpc_options s_rpc) = Follows 1"
proof -
  let ?obj = "[''queue'' \<mapsto> JString ''service-x:gateway:res'', ''c-1'' \<mapsto> JDeferred 0]"
  have h1: "amqpRPCQueues s_rpc ''service-x'' = Some ?obj" by (simp add: s_rpc_val)
  have h2: "channel s_rpc = Some 1" by (simp add: s_rpc_val)
  have h3: "send e_throw = Inl (Failure ''closed'')" by (simp add: e_throw_def)
  have h4: "send e_ok = Inr True" by (simp add: e_ok_def)
  have h5: "length (deferreds s_rpc) = 1" by (simp add: s_rpc_val)
  note t1 = send_then_register [where e = e_throw and opts = rpc_options and msg = "''ping''" and c = c0, OF h1 h2 refl refl]
  note t2 = send_then_register [where e = e_ok and opts = rpc_options and msg = "''ping''" and c = c0, OF h1 h2 refl refl]
  have "fst (checkRpc_then e_throw ''service-x'' ''ping'' rpc_options s_rpc) = Rejected (Failure ''closed'')"
    using t1 h3 by simp
  moreover have "fst (checkRpc_then e_ok ''service-x'' ''ping'' rpc_options s_rpc) = Follows 1"
    using t2 h4 h5 by auto
  ultimately show ?thesis using h1 h2 h3 h4 by simp
qed

text \<open>
  C1 as stated has the handle in the map before the send is performed. With a send that
  throws, the send has been performed (it is in the trace) and the map holds nothing under
  the fresh correlation id \<open>c-2\<close>: the registry is as it was before the callback.
\<close>

theorem send_before_register_counterexample:
  "checkRpc_then e_throw ''service-x'' ''ping'' rpc_options s_rpc =
     (Rejected (Failure ''closed''),
      s_rpc\<lparr>trace := trace s_rpc @
        [SendToQueue 1 ''service-x'' ''ping''
           (rpc_options\<lparr>correlationId := JString ''c-2'', replyTo := JString ''service-x:gateway:res''\<rparr>)]\<rparr>,
      rpc_options\<lparr>correlationId := JString ''c-2'', replyTo := JString ''service-x:gateway:res''\<rparr>)
   \<and> own (the (amqpRPCQueues s_rpc ''service-x'')) ''c-2'' = JUndefined"
  by (simp add: checkRpc_then_def publishOrSendToQueue_def emit_def Let_def own_def s_rpc_val e_throw_def rpc_options_def default_options_def)

section \<open>The calls of one attempt\<close>

text \<open>
  What one pass through \<open>produce\<close> adds to the trace: \<open>conn.get()\<close>, then, when a channel
  was granted, the log of the outbound payload and calls on the channel. The payload
  logged and encoded is the caller's, or \<open>null\<close> for a falsy one; every message handed to
  the channel is marked persistent.
\<close>

lemma retry_view_append: "retry_view (xs @ ys) = retry_view xs @ retry_view ys"
  by (simp add: retry_view_def)

lemma payloads_append: "payloads (xs @ ys) = payloads xs @ payloads ys"
  by (induction xs rule: payloads.induct) simp_all

lemma sent_append: "sent (xs @ ys) = sent xs @ sent ys"
  by (induction xs rule: sent.induct) simp_all

lemma sent_options_append: "sent_options (xs @ ys) = sent_options xs @ sent_options ys"
  by (induction xs rule: sent_options.induct) simp_all

lemma checkRpc_trace:
  assumes "checkRpc c e q b opts s = (r, s1, o1)"
  shows "\<exists>evs. trace s1 = trace s @ evs \<and> retry_view evs = [] \<and> payloads evs = []
           \<and> set (sent evs) \<subseteq> {b}
           \<and> (\<forall>x \<in> set (sent_options evs). persistent x = JBool True)
           \<and> ((\<forall>err. r \<noteq> Rejected err) \<longrightarrow> sent evs = [b])"
  using assms
  by (auto simp: checkRpc_def checkRpc_then_def createRpcQueue_def
      createRpcQueue_then_def publishOrSendToQueue_def emit_def own_def Let_def retry_view_def
      split: sum.splits option.splits if_splits)


lemma checkRpc_result:
  assumes "checkRpc c e q b opts s = (r, s1, o1)"
  shows "(\<exists>err. r = Rejected err) \<or> (\<exists>v. r = Fulfilled (JBool v))
       \<or> (\<exists>a. r = Follows a \<and> a < length (deferreds s1) \<and> deferreds s1 ! a = None)"
  using assms
  by (auto simp: checkRpc_def checkRpc_then_def createRpcQueue_def
      createRpcQueue_then_def publishOrSendToQueue_def emit_def own_def Let_def nth_append
      split: sum.splits option.splits if_splits)

lemma checkRpc_last_event:
  assumes "checkRpc c e q b opts s = (r, s1, o1)" and "\<forall>err. r \<noteq> Rejected err"
  shows "\<exists>tr ev. trace s1 = tr @ [ev] \<and> sent [ev] = [b]"
  using assms
  by (auto simp: checkRpc_def checkRpc_then_def createRpcQueue_def
      createRpcQueue_then_def publishOrSendToQueue_def emit_def own_def Let_def
      split: sum.splits option.splits if_splits)

lemma attempt_trace:
  assumes "attempt c e q msg opts s = (r, s1, m1, o1)"
  shows "\<exists>evs. trace s1 = trace s @ ConnGet # evs \<and> retry_view evs = []
      \<and> set (payloads evs) \<subseteq> {if truthy msg then msg else JNull}
      \<and> set (sent evs) \<subseteq> range (parsers_out c (if truthy msg then msg else JNull))
      \<and> (\<forall>x \<in> set (sent_options evs). persistent x = JBool True)
      \<and> ((\<forall>err. r \<noteq> Rejected err) \<longrightarrow>
            payloads evs = [if truthy msg then msg else JNull] \<and> sent evs \<noteq> [])"
proof (cases "conn_get e")
  case (Inl err)
  with assms show ?thesis
    by (auto simp: attempt_def emit_def retry_view_def)
next
  case (Inr ch)
  define p where "p = (if truthy msg then msg else JNull)"
  define o0 where "o0 = (case opts of None \<Rightarrow> default_options | Some x \<Rightarrow> x)"
  define s2 where "s2 = emit (TransportInfo ''amqp:producer'' (''['' @ q @ ''] > '') p)
               ((emit ConnGet s)\<lparr>channel := Some ch\<rparr>)"
  have unf: "attempt c e q msg opts s =
      (case checkRpc c e q (parsers_out c p o0) o0 s2 of (r, s3, o2) \<Rightarrow> (r, s3, p, Some o2))"
    using Inr by (simp add: attempt_def produce_then_def Let_def p_def o0_def s2_def)
  obtain r' s' o' where c: "checkRpc c e q (parsers_out c p o0) o0 s2 = (r', s', o')"
    by (cases "checkRpc c e q (parsers_out c p o0) o0 s2") auto
  from assms unf c have eq: "r = r'" "s1 = s'" by simp_all
  from checkRpc_trace [OF c] obtain evs where evs: "trace s' = trace s2 @ evs"
    "retry_view evs = []" "payloads evs = []" "set (sent evs) \<subseteq> {parsers_out c p o0}"
    "\<forall>x \<in> set (sent_options evs). persistent x = JBool True"
    "(\<forall>err. r' \<noteq> Rejected err) \<longrightarrow> sent evs = [parsers_out c p o0]"
    by blast
  let ?evs = "TransportInfo ''amqp:producer'' (''['' @ q @ ''] > '') p # evs"
  have 1: "trace s1 = trace s @ ConnGet # ?evs"
    using evs(1) eq by (simp add: emit_def s2_def)
  have 2: "retry_view ?evs = []"
    using evs(2) by (simp add: retry_view_def)
  have 3: "payloads ?evs = [p]"
    using evs(3) by simp
  have 4: "set (sent ?evs) \<subseteq> range (parsers_out c p)"
    using evs(4) by auto
  have 5: "\<forall>x \<in> set (sent_options ?evs). persistent x = JBool True"
    using evs(5) by simp
  have 6: "(\<forall>err. r \<noteq> Rejected err) \<longrightarrow> sent ?evs \<noteq> []"
    using evs(6) eq by simp
  show ?thesis
    unfolding p_def [symmetric]
    apply (rule exI [of _ ?evs])
    using 1 2 3 4 5 6 by simp
qed

lemma attempt_msg:
  assumes "attempt c e q msg opts s = (r, s1, m1, o1)"
  shows "(if truthy m1 then m1 else JNull) = (if truthy msg then msg else JNull)"
  using assms
  by (auto simp: attempt_def produce_then_def Let_def split: sum.splits prod.splits if_splits)

lemma attempt_result:
  assumes "attempt c e q msg opts s = (r, s1, m1, o1)"
  shows "(\<exists>err. r = Rejected err) \<or> (\<exists>v. r = Fulfilled (JBool v))
       \<or> (\<exists>a. r = Follows a \<and> a < length (deferreds s1) \<and> deferreds s1 ! a = None)"
  using assms
  by (auto simp: attempt_def produce_then_def Let_def split: sum.splits prod.splits
      dest: checkRpc_result)

section \<open>The retry loop\<close>

text \<open>
  A rejected attempt is followed by the error log, the delay and the next attempt, run
  with the \<open>msg\<close> and \<open>options\<close> the rejected attempt left; any other outcome settles the
  call.
\<close>

lemma produce_rejected_step:
  assumes "attempt c e q msg opts s = (Rejected err, s1, m1, o1)"
  shows "produce c (e # es) q msg opts s = produce c es q m1 o1 (on_error c err s1)"
  using assms by simp

lemma produce_settled_step:
  assumes "attempt c e q msg opts s = (r, s1, m1, o1)" and "\<forall>err. r \<noteq> Rejected err"
  shows "produce c (e # es) q msg opts s = (Some r, s1)"
  using assms by (cases r) simp_all

lemma produce_result:
  "fst (produce c es q msg opts s) = None
   \<or> (\<exists>v. fst (produce c es q msg opts s) = Some (Fulfilled (JBool v)))
   \<or> (\<exists>a. fst (produce c es q msg opts s) = Some (Follows a)
          \<and> a < length (deferreds (snd (produce c es q msg opts s)))
          \<and> deferreds (snd (produce c es q msg opts s)) ! a = None)"
proof (induction es arbitrary: msg opts s)
  case Nil
  show ?case by simp
next
  case (Cons e es)
  obtain r s1 m1 o1 where a: "attempt c e q msg opts s = (r, s1, m1, o1)"
    by (cases "attempt c e q msg opts s") auto
  show ?case
  proof (cases "\<exists>err. r = Rejected err")
    case True
    then obtain err where "r = Rejected err" by blast
    with a have "produce c (e # es) q msg opts s = produce c es q m1 o1 (on_error c err s1)"
      by simp
    then show ?thesis using Cons.IH [of m1 o1 "on_error c err s1"] by simp
  next
    case False
    with a have p: "produce c (e # es) q msg opts s = (Some r, s1)"
      by (cases r) auto
    from attempt_result [OF a] False show ?thesis unfolding p by auto
  qed
qed

lemma produce_failures:
  assumes "fst (produce c fs q msg opts s) = None"
  shows "\<exists>errs evs m1 o1.
      length errs = length fs
    \<and> trace (snd (produce c fs q msg opts s)) = trace s @ evs
    \<and> retry_view evs = concat (map (\<lambda>err. [ConnGet, TransportError ''amqp:producer'' err,
                                              TimeoutPromise (timeout c)]) errs)
    \<and> set (payloads evs) \<subseteq> {if truthy msg then msg else JNull}
    \<and> set (sent evs) \<subseteq> range (parsers_out c (if truthy msg then msg else JNull))
    \<and> (if truthy m1 then m1 else JNull) = (if truthy msg then msg else JNull)
    \<and> (\<forall>es. produce c (fs @ es) q msg opts s
             = produce c es q m1 o1 (snd (produce c fs q msg opts s)))"
  using assms
proof (induction fs arbitrary: msg opts s)
  case Nil
  show ?case
    by (rule exI [of _ "[]"], rule exI [of _ "[]"], rule exI [of _ msg], rule exI [of _ opts])
       (simp add: retry_view_def)
next
  case (Cons e fs)
  obtain r s1 m1 o1 where a: "attempt c e q msg opts s = (r, s1, m1, o1)"
    by (cases "attempt c e q msg opts s") auto
  have "\<exists>err. r = Rejected err"
  proof (rule ccontr)
    assume "\<not> (\<exists>err. r = Rejected err)"
    with a have "produce c (e # fs) q msg opts s = (Some r, s1)"
      by (cases r) auto
    with Cons.prems show False by simp
  qed
  then obtain err where r: "r = Rejected err" by blast
  let ?s2 = "on_error c err s1"
  have step: "\<And>es. produce c (e # es) q msg opts s = produce c es q m1 o1 ?s2"
    using a r by simp
  have none: "fst (produce c fs q m1 o1 ?s2) = None"
    using Cons.prems step [of fs] by simp
  from Cons.IH [OF none] obtain errs evs m2 o2 where ih:
    "length errs = length fs"
    "trace (snd (produce c fs q m1 o1 ?s2)) = trace ?s2 @ evs"
    "retry_view evs = concat (map (\<lambda>err. [ConnGet, TransportError ''amqp:producer'' err,
                                              TimeoutPromise (timeout c)]) errs)"
    "set (payloads evs) \<subseteq> {if truthy m1 then m1 else JNull}"
    "set (sent evs) \<subseteq> range (parsers_out c (if truthy m1 then m1 else JNull))"
    "(if truthy m2 then m2 else JNull) = (if truthy m1 then m1 else JNull)"
    "\<forall>es. produce c (fs @ es) q m1 o1 ?s2 = produce c es q m2 o2 (snd (produce c fs q m1 o1 ?s2))"
    by blast
  from attempt_trace [OF a] obtain evs0 where at:
    "trace s1 = trace s @ ConnGet # evs0" "retry_view evs0 = []"
    "set (payloads evs0) \<subseteq> {if truthy msg then msg else JNull}"
    "set (sent evs0) \<subseteq> range (parsers_out c (if truthy msg then msg else JNull))"
    by blast
  note m = attempt_msg [OF a]
  let ?evs = "ConnGet # evs0 @ [TransportError ''amqp:producer'' err, TimeoutPromise (timeout c)] @ evs"
  have ts2: "trace ?s2 = trace s1 @ [TransportError ''amqp:producer'' err, TimeoutPromise (timeout c)]"
    by (simp add: on_error_def emit_def)
  have t: "trace (snd (produce c (e # fs) q msg opts s)) = trace s @ ?evs"
    unfolding step ih(2) ts2 at(1) by simp
  have rv: "retry_view ?evs = concat (map (\<lambda>err. [ConnGet, TransportError ''amqp:producer'' err,
                                              TimeoutPromise (timeout c)]) (err # errs))"
  proof -
    have "retry_view ?evs = ConnGet # retry_view evs0
        @ [TransportError ''amqp:producer'' err, TimeoutPromise (timeout c)] @ retry_view evs"
      by (simp add: retry_view_def)
    then show ?thesis using at(2) ih(3) by simp
  qed
  have pl: "set (payloads ?evs) \<subseteq> {if truthy msg then msg else JNull}"
  proof -
    have "payloads ?evs = payloads evs0 @ payloads evs"
      by (simp add: payloads_append)
    then show ?thesis using at(3) ih(4) m by auto
  qed
  have sn: "set (sent ?evs) \<subseteq> range (parsers_out c (if truthy msg then msg else JNull))"
  proof -
    have "sent ?evs = sent evs0 @ sent evs"
      by (simp add: sent_append)
    then show ?thesis using at(4) ih(5) m by auto
  qed
  have m2: "(if truthy m2 then m2 else JNull) = (if truthy msg then msg else JNull)"
    using ih(6) m by simp
  have app: "\<forall>es. produce c ((e # fs) @ es) q msg opts s
             = produce c es q m2 o2 (snd (produce c (e # fs) q msg opts s))"
    unfolding append_Cons step using ih(7) by blast
  have len: "length (err # errs) = length (e # fs)" using ih(1) by simp
  show ?case
    apply (rule exI [of _ "err # errs"], rule exI [of _ ?evs], rule exI [of _ m2], rule exI [of _ o2])
    using len t rv pl sn m2 app by blast
qed


lemma attempt_last_event:
  assumes "attempt c e q msg opts s = (r, s1, m1, o1)" and "\<forall>err. r \<noteq> Rejected err"
  shows "\<exists>tr ev. trace s1 = tr @ [ev] \<and> sent [ev] \<noteq> []"
proof (cases "conn_get e")
  case (Inl err)
  with assms show ?thesis by (auto simp: attempt_def)
next
  case (Inr ch)
  define p where "p = (if truthy msg then msg else JNull)"
  define o0 where "o0 = (case opts of None \<Rightarrow> default_options | Some x \<Rightarrow> x)"
  define s2 where "s2 = emit (TransportInfo ''amqp:producer'' (''['' @ q @ ''] > '') p)
               ((emit ConnGet s)\<lparr>channel := Some ch\<rparr>)"
  have unf: "attempt c e q msg opts s =
      (case checkRpc c e q (parsers_out c p o0) o0 s2 of (r, s3, o2) \<Rightarrow> (r, s3, p, Some o2))"
    using Inr by (simp add: attempt_def produce_then_def Let_def p_def o0_def s2_def)
  obtain r' s' o' where c: "checkRpc c e q (parsers_out c p o0) o0 s2 = (r', s', o')"
    by (cases "checkRpc c e q (parsers_out c p o0) o0 s2") auto
  from assms unf c have eq: "r = r'" "s1 = s'" by simp_all
  from checkRpc_last_event [OF c] assms(2) eq show ?thesis by fastforce
qed

lemma produce_last_event:
  assumes "fst (produce c es q msg opts s) = Some r"
  shows "\<exists>tr ev. trace (snd (produce c es q msg opts s)) = tr @ [ev] \<and> sent [ev] \<noteq> []"
  using assms
proof (induction es arbitrary: msg opts s)
  case Nil
  then show ?case by simp
next
  case (Cons e es)
  obtain r' s1 m1 o1 where a: "attempt c e q msg opts s = (r', s1, m1, o1)"
    by (cases "attempt c e q msg opts s") auto
  show ?case
  proof (cases "\<exists>err. r' = Rejected err")
    case True
    then obtain err where "r' = Rejected err" by blast
    with a have st: "produce c (e # es) q msg opts s = produce c es q m1 o1 (on_error c err s1)"
      by simp
    show ?thesis using Cons.IH [of m1 o1 "on_error c err s1"] Cons.prems unfolding st by simp
  next
    case False
    then have nr: "\<forall>err. r' \<noteq> Rejected err" by blast
    have st: "produce c (e # es) q msg opts s = (Some r', s1)"
      by (rule produce_settled_step [OF a nr])
    from attempt_last_event [OF a nr] show ?thesis unfolding st by simp
  qed
qed

text \<open>
  C5. Whatever the environment answers, and for any number of attempts, the promise of
  \<open>produce\<close> is never rejected: it is unsettled (still retrying), fulfilled with the
  boolean the send returned, or following a deferred that is pending in the registry's
  heap, to be resolved by a reply. When it is settled, the last call made is the send. An
  attempt rejected with \<open>err1\<close> is followed by the error log, the delay \<open>timeout\<close> and a new
  run of \<open>produce\<close> on the remaining answers; as long as every attempt is rejected the call
  stays unsettled, with one error log and one delay per attempt, however many there are.
\<close>

theorem produce_never_rejects:
  "fst (produce c es queue msg opts s) \<noteq> Some (Rejected err)
   \<and> (fst (produce c es queue msg opts s) = None
      \<or> (\<exists>v. fst (produce c es queue msg opts s) = Some (Fulfilled (JBool v)))
      \<or> (\<exists>a. fst (produce c es queue msg opts s) = Some (Follows a)
            \<and> a < length (deferreds (snd (produce c es queue msg opts s)))
            \<and> deferreds (snd (produce c es queue msg opts s)) ! a = None))
   \<and> (\<forall>r. fst (produce c es queue msg opts s) = Some r \<longrightarrow>
         (\<exists>tr ev. trace (snd (produce c es queue msg opts s)) = tr @ [ev] \<and> sent [ev] \<noteq> []))
   \<and> (\<forall>e err1 s1 m1 o1. attempt c e queue msg opts s = (Rejected err1, s1, m1, o1) \<longrightarrow>
         produce c (e # es) queue msg opts s =
           produce c es queue m1 o1
             (emit (TimeoutPromise (timeout c)) (emit (TransportError ''amqp:producer'' err1) s1)))
   \<and> (fst (produce c es queue msg opts s) = None \<longrightarrow>
         (\<exists>errs evs. length errs = length es
            \<and> trace (snd (produce c es queue msg opts s)) = trace s @ evs
            \<and> retry_view evs =
                concat (map (\<lambda>x. [ConnGet, TransportError ''amqp:producer'' x,
                                   TimeoutPromise (timeout c)]) errs)))"
proof (intro conjI allI impI)
  show "fst (produce c es queue msg opts s) \<noteq> Some (Rejected err)"
    using produce_result [of c es queue msg opts s] by auto
next
  show "fst (produce c es queue msg opts s) = None
      \<or> (\<exists>v. fst (produce c es queue msg opts s) = Some (Fulfilled (JBool v)))
      \<or> (\<exists>a. fst (produce c es queue msg opts s) = Some (Follows a)
            \<and> a < length (deferreds (snd (produce c es queue msg opts s)))
            \<and> deferreds (snd (produce c es queue msg opts s)) ! a = None)"
    by (rule produce_result)
next
  fix r assume "fst (produce c es queue msg opts s) = Some r"
  then show "\<exists>tr ev. trace (snd (produce c es queue msg opts s)) = tr @ [ev] \<and> sent [ev] \<noteq> []"
    by (rule produce_last_event)
next
  fix e err1 s1 m1 o1
  assume "attempt c e queue msg opts s = (Rejected err1, s1, m1, o1)"
  then show "produce c (e # es) queue msg opts s =
           produce c es queue m1 o1
             (emit (TimeoutPromise (timeout c)) (emit (TransportError ''amqp:producer'' err1) s1))"
    by (simp add: on_error_def)
next
  assume "fst (produce c es queue msg opts s) = None"
  from produce_failures [OF this]
  show "\<exists>errs evs. length errs = length es
            \<and> trace (snd (produce c es queue msg opts s)) = trace s @ evs
            \<and> retry_view evs =
                concat (map (\<lambda>x. [ConnGet, TransportError ''amqp:producer'' x,
                                   TimeoutPromise (timeout c)]) errs)"
    by blast
qed

text \<open>
  An RPC call whose first attempt finds the connection down: the attempt is rejected, the
  call retries and then follows deferred 0; with that one answer alone it stays unsettled.
\<close>

theorem produce_never_rejects_witness:
  "attempt c0 e_down ''service-x'' ping (Some rpc_options) init
      = (Rejected (Failure ''closed''), emit ConnGet init, ping, Some rpc_options)
   \<and> produce c0 [e_down, e_ok] ''service-x'' ping (Some rpc_options) init
      = produce c0 [e_ok] ''service-x'' ping (Some rpc_options)
          (emit (TimeoutPromise (timeout c0))
             (emit (TransportError ''amqp:producer'' (Failure ''closed'')) (emit ConnGet init)))
   \<and> fst (produce c0 [e_down, e_ok] ''service-x'' ping (Some rpc_options) init) = Some (Follows 0)
   \<and> fst (produce c0 [e_down, e_ok] ''service-x'' ping (Some rpc_options) init)
        \<noteq> Some (Rejected (Failure ''closed''))
   \<and> (\<exists>tr ev. trace (snd (produce c0 [e_down, e_ok] ''service-x'' ping (Some rpc_options) init))
                  = tr @ [ev] \<and> sent [ev] \<noteq> [])
   \<and> fst (produce c0 [e_down] ''service-x'' ping (Some rpc_options) init) = None
   \<and> (\<exists>errs evs. length errs = length [e_down]
         \<and> trace (snd (produce c0 [e_down] ''service-x'' ping (Some rpc_options) init))
              = trace init @ evs
         \<and> retry_view evs =
             concat (map (\<lambda>x. [ConnGet, TransportError ''amqp:producer'' x,
                                TimeoutPromise (timeout c0)]) errs))"
proof -
  have a: "attempt c0 e_down ''service-x'' ping (Some rpc_options) init
      = (Rejected (Failure ''closed''), emit ConnGet init, ping, Some rpc_options)"
    by (simp add: attempt_def e_down_def)
  have ok: "fst (produce c0 [e_down, e_ok] ''service-x'' ping (Some rpc_options) init) = Some (Follows 0)"
    by (simp add: demo_defs step_defs)
  have none: "fst (produce c0 [e_down] ''service-x'' ping (Some rpc_options) init) = None"
    by (simp add: attempt_def e_down_def)
  note t1 = produce_never_rejects [of c0 "[e_down, e_ok]" "''service-x''" ping "Some rpc_options" init
      "Failure ''closed''"]
  note t2 = produce_never_rejects [of c0 "[e_ok]" "''service-x''" ping "Some rpc_options" init
      "Failure ''closed''"]
  note t3 = produce_never_rejects [of c0 "[e_down]" "''service-x''" ping "Some rpc_options" init
      "Failure ''closed''"]
  have 1: "produce c0 [e_down, e_ok] ''service-x'' ping (Some rpc_options) init
      = produce c0 [e_ok] ''service-x'' ping (Some rpc_options)
          (emit (TimeoutPromise (timeout c0))
             (emit (TransportError ''amqp:producer'' (Failure ''closed'')) (emit ConnGet init)))"
    using t2 a by blast
  have 2: "fst (produce c0 [e_down, e_ok] ''service-x'' ping (Some rpc_options) init)
        \<noteq> Some (Rejected (Failure ''closed''))"
    using t1 by blast
  have 3: "\<exists>tr ev. trace (snd (produce c0 [e_down, e_ok] ''service-x'' ping (Some rpc_options) init))
                  = tr @ [ev] \<and> sent [ev] \<noteq> []"
    using t1 ok by blast
  have 4: "\<exists>errs evs. length errs = length [e_down]
         \<and> trace (snd (produce c0 [e_down] ''service-x'' ping (Some rpc_options) init))
              = trace init @ evs
         \<and> retry_view evs =
             concat (map (\<lambda>x. [ConnGet, TransportError ''amqp:producer'' x,
                                TimeoutPromise (timeout c0)]) errs)"
    using t3 none by blast
  show ?thesis using a 1 ok 2 3 none 4 by blast
qed

section \<open>The payload and the options of the messages sent\<close>

lemma attempt_falsy:
  assumes "\<not> truthy m" and "\<not> truthy m'"
  shows "\<exists>r s1 m1 m1' o1. attempt c e q m opts s = (r, s1, m1, o1)
      \<and> attempt c e q m' opts s = (r, s1, m1', o1) \<and> \<not> truthy m1 \<and> \<not> truthy m1'"
proof (cases "conn_get e")
  case (Inl err)
  with assms show ?thesis by (simp add: attempt_def)
next
  case (Inr ch)
  with assms show ?thesis
    by (simp add: attempt_def produce_then_def Let_def split: prod.splits)
qed

lemma produce_falsy:
  assumes "\<not> truthy m" and "\<not> truthy m'"
  shows "produce c es q m opts s = produce c es q m' opts s"
  using assms
proof (induction es arbitrary: m m' opts s)
  case Nil
  show ?case by simp
next
  case (Cons e es)
  from attempt_falsy [OF Cons.prems, of c e q opts s]
  obtain r s1 m1 m1' o1 where a: "attempt c e q m opts s = (r, s1, m1, o1)"
      "attempt c e q m' opts s = (r, s1, m1', o1)" "\<not> truthy m1" "\<not> truthy m1'"
    by blast
  show ?case
  proof (cases r)
    case (Rejected err)
    with a Cons.IH [OF a(3,4)] show ?thesis by simp
  qed (use a in simp_all)
qed

lemma produce_trace:
  "\<exists>evs. trace (snd (produce c es q msg opts s)) = trace s @ evs
     \<and> set (payloads evs) \<subseteq> {if truthy msg then msg else JNull}
     \<and> set (sent evs) \<subseteq> range (parsers_out c (if truthy msg then msg else JNull))
     \<and> (\<forall>x \<in> set (sent_options evs). persistent x = JBool True)"
proof (induction es arbitrary: msg opts s)
  case Nil
  show ?case by simp
next
  case (Cons e es)
  let ?p = "if truthy msg then msg else JNull"
  obtain r s1 m1 o1 where a: "attempt c e q msg opts s = (r, s1, m1, o1)"
    by (cases "attempt c e q msg opts s") auto
  from attempt_trace [OF a] obtain evs0 where at:
    "trace s1 = trace s @ ConnGet # evs0"
    "set (payloads evs0) \<subseteq> {?p}"
    "set (sent evs0) \<subseteq> range (parsers_out c ?p)"
    "\<forall>x \<in> set (sent_options evs0). persistent x = JBool True"
    by blast
  show ?case
  proof (cases "\<exists>err. r = Rejected err")
    case True
    then obtain err where r: "r = Rejected err" by blast
    let ?s2 = "on_error c err s1"
    have st: "produce c (e # es) q msg opts s = produce c es q m1 o1 ?s2"
      using a r by simp
    have ts2: "trace ?s2 = trace s1 @ [TransportError ''amqp:producer'' err, TimeoutPromise (timeout c)]"
      by (simp add: on_error_def emit_def)
    from Cons.IH [of m1 o1 ?s2] obtain evs where ih:
      "trace (snd (produce c es q m1 o1 ?s2)) = trace ?s2 @ evs"
      "set (payloads evs) \<subseteq> {?p}"
      "set (sent evs) \<subseteq> range (parsers_out c ?p)"
      "\<forall>x \<in> set (sent_options evs). persistent x = JBool True"
      unfolding attempt_msg [OF a] by blast
    let ?evs = "ConnGet # evs0 @ [TransportError ''amqp:producer'' err, TimeoutPromise (timeout c)] @ evs"
    have 1: "trace (snd (produce c (e # es) q msg opts s)) = trace s @ ?evs"
      unfolding st ih(1) ts2 at(1) by simp
    have 2: "set (payloads ?evs) \<subseteq> {?p}"
      using at(2) ih(2) by (auto simp: payloads_append)
    have 3: "set (sent ?evs) \<subseteq> range (parsers_out c ?p)"
      using at(3) ih(3) by (auto simp: sent_append)
    have 4: "\<forall>x \<in> set (sent_options ?evs). persistent x = JBool True"
      using at(4) ih(4) by (auto simp: sent_options_append)
    show ?thesis
      apply (rule exI [of _ ?evs])
      using 1 2 3 4 by blast
  next
    case False
    then have nr: "\<forall>err. r \<noteq> Rejected err" by blast
    have st: "produce c (e # es) q msg opts s = (Some r, s1)"
      by (rule produce_settled_step [OF a nr])
    have 2: "set (payloads (ConnGet # evs0)) \<subseteq> {?p}" using at(2) by simp
    have 3: "set (sent (ConnGet # evs0)) \<subseteq> range (parsers_out c ?p)" using at(3) by simp
    have 4: "\<forall>x \<in> set (sent_options (ConnGet # evs0)). persistent x = JBool True"
      using at(4) by simp
    show ?thesis
      apply (rule exI [of _ "ConnGet # evs0"])
      unfolding st using at(1) 2 3 4 by simp
  qed
qed

text \<open>
  C7. The caller's \<open>persistent\<close> is to decide whether the message is persistent, true being
  only the default. \<open>checkRpc\<close> assigns \<open>options.persistent = true\<close> before every send
  (lemma \<open>produce_trace\<close>), so a caller who passes \<open>persistent: false\<close> has the message sent
  with \<open>persistent: true\<close>.
\<close>

theorem persistent_false_is_overridden:
  "persistent (default_options\<lparr>persistent := JBool False\<rparr>) = JBool False
   \<and> map persistent (sent_options (trace (snd
        (produce c [e_ok] ''queueName'' (JObject [(''message'', JString ''hello world!'')])
           (Some (default_options\<lparr>persistent := JBool False\<rparr>)) init))))
      = [JBool True]"
  by (simp add: demo_defs step_defs)


section \<open>The first RPC produce for a destination\<close>

text \<open>
  When every step succeeds. The registry has no object for the destination yet, the
  options ask for RPC, and the broker grants a channel, answers the declaration with the
  name \<open>n\<close>, starts the consumer and accepts the send. Then \<open>produce\<close> declares
  \<open>queue:hostname:res\<close> durable and exclusive, starts a consumer with \<open>noAck\<close> on the queue
  \<open>n\<close>, and only then sends the encoded payload with \<open>correlationId\<close> set to the value of
  \<open>uuid.v4()\<close> and \<open>replyTo\<close> set to \<open>n\<close>; the call follows a new pending deferred.
\<close>

lemma first_rpc_produce:
  assumes "amqpRPCQueues s queue = None"
    and "truthy (rpc opts)"
    and "conn_get e = Inr ch"
    and "assertQueue e = Inr n"
    and "consume e = Inr ()"
    and "send e = Inr b"
    and "p = (if truthy msg then msg else JNull)"
    and "opts' = opts\<lparr>persistent := JBool True, correlationId := JString (uuid_v4 e),
                       replyTo := JString n\<rparr>"
  shows "\<exists>s'. produce c (e # es) queue msg (Some opts) s = (Some (Follows (length (deferreds s))), s')
     \<and> trace s' = trace s @
         [ConnGet,
          TransportInfo ''amqp:producer'' (''['' @ queue @ ''] > '') p,
          AssertQueue ch (queue @ '':'' @ hostname c @ '':res'') True True,
          Consume ch n queue True,
          (if truthy (routingKey opts)
           then Publish ch queue (routingKey opts) (parsers_out c p opts) opts'
           else SendToQueue ch queue (parsers_out c p opts) opts')]
     \<and> amqpRPCQueues s' queue
         = Some [''queue'' \<mapsto> JString n, uuid_v4 e \<mapsto> JDeferred (length (deferreds s))]
     \<and> listeners s' = listeners s @ [(queue, False)]
     \<and> deferreds s' = deferreds s @ [None]"
  using assms
  by (simp add: step_defs)

text \<open>The first RPC produce to \<open>service-x\<close> from the initial state.\<close>

lemma first_rpc_produce_example:
  "amqpRPCQueues init ''service-x'' = None
   \<and> truthy (rpc rpc_options)
   \<and> conn_get e_ok = Inr 1
   \<and> assertQueue e_ok = Inr ''service-x:gateway:res''
   \<and> consume e_ok = Inr ()
   \<and> send e_ok = Inr True
   \<and> (\<exists>s'. produce c0 [e_ok] ''service-x'' ping (Some rpc_options) init = (Some (Follows 0), s')
        \<and> trace s' =
            [ConnGet,
             TransportInfo ''amqp:producer'' ''[service-x] > '' ping,
             AssertQueue 1 ''service-x:gateway:res'' True True,
             Consume 1 ''service-x:gateway:res'' ''service-x'' True,
             SendToQueue 1 ''service-x'' ''ping''
               (rpc_options\<lparr>correlationId := JString ''c-1'',
                             replyTo := JString ''service-x:gateway:res''\<rparr>)])"
proof -
  have h1: "amqpRPCQueues init ''service-x'' = None" by (simp add: init_def)
  have h2: "truthy (rpc rpc_options)" by (simp add: rpc_options_def default_options_def)
  have h3: "conn_get e_ok = Inr 1" by (simp add: e_ok_def)
  have h4: "assertQueue e_ok = Inr ''service-x:gateway:res''" by (simp add: e_ok_def)
  have h5: "consume e_ok = Inr ()" by (simp add: e_ok_def)
  have h6: "send e_ok = Inr True" by (simp add: e_ok_def)
  from first_rpc_produce [where msg = ping and c = c0 and es = "[]", OF h1 h2 h3 h4 h5 h6 refl refl]
  obtain s' where s': "produce c0 [e_ok] ''service-x'' ping (Some rpc_options) init
        = (Some (Follows (length (deferreds init))), s')"
    "trace s' = trace init @
         [ConnGet,
          TransportInfo ''amqp:producer'' (''['' @ ''service-x'' @ ''] > '')
            (if truthy ping then ping else JNull),
          AssertQueue 1 (''service-x'' @ '':'' @ hostname c0 @ '':res'') True True,
          Consume 1 ''service-x:gateway:res'' ''service-x'' True,
          (if truthy (routingKey rpc_options)
           then Publish 1 ''service-x'' (routingKey rpc_options)
                  (parsers_out c0 (if truthy ping then ping else JNull) rpc_options)
                  (rpc_options\<lparr>persistent := JBool True, correlationId := JString (uuid_v4 e_ok),
                       replyTo := JString ''service-x:gateway:res''\<rparr>)
           else SendToQueue 1 ''service-x''
                  (parsers_out c0 (if truthy ping then ping else JNull) rpc_options)
                  (rpc_options\<lparr>persistent := JBool True, correlationId := JString (uuid_v4 e_ok),
                       replyTo := JString ''service-x:gateway:res''\<rparr>))]"
    by blast
  have 1: "produce c0 [e_ok] ''service-x'' ping (Some rpc_options) init = (Some (Follows 0), s')"
    using s'(1) by (simp add: init_def)
  have 2: "trace s' =
            [ConnGet,
             TransportInfo ''amqp:producer'' ''[service-x] > '' ping,
             AssertQueue 1 ''service-x:gateway:res'' True True,
             Consume 1 ''service-x:gateway:res'' ''service-x'' True,
             SendToQueue 1 ''service-x'' ''ping''
               (rpc_options\<lparr>correlationId := JString ''c-1'',
                             replyTo := JString ''service-x:gateway:res''\<rparr>)]"
    using s'(2) by (simp add: demo_defs)
  show ?thesis using h1 h2 h3 h4 h5 h6 1 2 by blast
qed

section \<open>The invariant is kept\<close>

lemma registry_inv_init: "registry_inv init"
  by (simp add: registry_inv_def init_def)

lemma createRpcQueue_inv:
  assumes "registry_inv s" and "createRpcQueue c e q s = (r, s1)"
  shows "registry_inv s1 \<and> (\<forall>v. r = Inr v \<longrightarrow> (q, False) \<in> set (listeners s1))
          \<and> (\<forall>v. r = Inr v \<longrightarrow> amqpRPCQueues s1 q \<noteq> None)"
  using assms
  by (auto simp: registry_inv_def createRpcQueue_def createRpcQueue_then_def emit_def own_def Let_def
      split: sum.splits option.splits if_splits; blast)

lemma checkRpc_then_inv:
  assumes "registry_inv s" and "(q, False) \<in> set (listeners s)"
    and "checkRpc_then e q b opts s = (r, s1, o1)"
  shows "registry_inv s1"
  using assms
  by (auto simp: registry_inv_def checkRpc_then_def publishOrSendToQueue_def emit_def own_def Let_def
      split: sum.splits option.splits if_splits; blast)


lemma registry_inv_frame:
  assumes "amqpRPCQueues s' = amqpRPCQueues s" and "listeners s' = listeners s"
  shows "registry_inv s' = registry_inv s"
  using assms by (simp add: registry_inv_def)

lemma registry_inv_emit: "registry_inv (emit ev s) = registry_inv s"
  by (rule registry_inv_frame) (simp_all add: emit_def)

lemma registry_inv_channel: "registry_inv (s\<lparr>channel := x\<rparr>) = registry_inv s"
  by (rule registry_inv_frame) simp_all

lemma registry_inv_on_error: "registry_inv (on_error c err s) = registry_inv s"
  by (simp add: on_error_def registry_inv_emit)

lemma publishOrSendToQueue_frame:
  assumes "publishOrSendToQueue e q b opts s = (r, s1)"
  shows "amqpRPCQueues s1 = amqpRPCQueues s \<and> listeners s1 = listeners s"
  using assms
  by (auto simp: publishOrSendToQueue_def emit_def split: option.splits if_splits)

lemma registry_inv_new_entry:
  assumes "registry_inv s" and "amqpRPCQueues s q = None"
  shows "registry_inv (s\<lparr>amqpRPCQueues := (amqpRPCQueues s)(q \<mapsto> Map.empty)\<rparr>)"
  unfolding registry_inv_def
proof (intro conjI allI impI)
  fix q' obj'
  assume a: "amqpRPCQueues (s\<lparr>amqpRPCQueues := (amqpRPCQueues s)(q \<mapsto> Map.empty)\<rparr>) q' = Some obj'"
    "truthy (own obj' ''queue'')"
  have "q' \<noteq> q"
  proof
    assume "q' = q"
    with a(1) have "obj' = Map.empty" by simp
    with a(2) show False by (simp add: own_def)
  qed
  with a(1) have "amqpRPCQueues s q' = Some obj'" by simp
  with a(2) assms(1) show "(q', False) \<in> set (listeners (s\<lparr>amqpRPCQueues := (amqpRPCQueues s)(q \<mapsto> Map.empty)\<rparr>))"
    unfolding registry_inv_def by simp
next
  fix q' once
  assume "(q', once) \<in> set (listeners (s\<lparr>amqpRPCQueues := (amqpRPCQueues s)(q \<mapsto> Map.empty)\<rparr>))"
  then have "(q', once) \<in> set (listeners s)" by simp
  with assms(1) have "\<not> once \<and> amqpRPCQueues s q' \<noteq> None" unfolding registry_inv_def by blast
  then show "\<not> once"
    and "amqpRPCQueues (s\<lparr>amqpRPCQueues := (amqpRPCQueues s)(q \<mapsto> Map.empty)\<rparr>) q' \<noteq> None"
    by auto
qed

lemma checkRpc_plain:
  assumes "\<not> truthy (rpc opts)"
  shows "checkRpc c e q b opts s =
     (case publishOrSendToQueue e q b (opts\<lparr>persistent := JBool True\<rparr>) s of
        (Inl err, s1) \<Rightarrow> (Rejected err, s1, opts\<lparr>persistent := JBool True\<rparr>)
      | (Inr v, s1) \<Rightarrow> (Fulfilled (JBool v), s1, opts\<lparr>persistent := JBool True\<rparr>))"
  using assms by (simp add: checkRpc_def Let_def)

lemma checkRpc_rpc:
  assumes "truthy (rpc opts)"
  shows "checkRpc c e q b opts s =
     (case createRpcQueue c e q
             (case amqpRPCQueues s q of
                None \<Rightarrow> s\<lparr>amqpRPCQueues := (amqpRPCQueues s)(q \<mapsto> Map.empty)\<rparr>
              | Some obj \<Rightarrow> s) of
        (Inl err, s2) \<Rightarrow> (Rejected err, s2, opts\<lparr>persistent := JBool True\<rparr>)
      | (Inr v, s2) \<Rightarrow> checkRpc_then e q b (opts\<lparr>persistent := JBool True\<rparr>) s2)"
  using assms by (simp add: checkRpc_def Let_def)

lemma checkRpc_inv:
  assumes "registry_inv s" and "checkRpc c e q b opts s = (r, s1, o1)"
  shows "registry_inv s1"
proof (cases "truthy (rpc opts)")
  case False
  obtain r' s' where p: "publishOrSendToQueue e q b (opts\<lparr>persistent := JBool True\<rparr>) s = (r', s')"
    by (cases "publishOrSendToQueue e q b (opts\<lparr>persistent := JBool True\<rparr>) s") auto
  have "s1 = s'"
    using assms(2) unfolding checkRpc_plain [OF False] p by (cases r') simp_all
  with publishOrSendToQueue_frame [OF p] assms(1) show ?thesis
    using registry_inv_frame [of s' s] by simp
next
  case True
  define s0 where "s0 = (case amqpRPCQueues s q of
      None \<Rightarrow> s\<lparr>amqpRPCQueues := (amqpRPCQueues s)(q \<mapsto> Map.empty)\<rparr> | Some obj \<Rightarrow> s)"
  have inv0: "registry_inv s0"
  proof (cases "amqpRPCQueues s q")
    case None
    then show ?thesis using registry_inv_new_entry [OF assms(1) None] by (simp add: s0_def)
  next
    case (Some obj)
    then show ?thesis using assms(1) by (simp add: s0_def)
  qed
  obtain r' s2 where cq: "createRpcQueue c e q s0 = (r', s2)"
    by (cases "createRpcQueue c e q s0") auto
  note ci = createRpcQueue_inv [OF inv0 cq]
  note unf = assms(2) [unfolded checkRpc_rpc [OF True], folded s0_def, unfolded cq]
  show ?thesis
  proof (cases r')
    case (Inl err)
    with unf have "s1 = s2" by simp
    with ci show ?thesis by simp
  next
    case (Inr v)
    with unf
    have ct: "checkRpc_then e q b (opts\<lparr>persistent := JBool True\<rparr>) s2 = (r, s1, o1)"
      by simp
    from ci Inr have i2: "registry_inv s2" and l2: "(q, False) \<in> set (listeners s2)" by simp_all
    show ?thesis by (rule checkRpc_then_inv [OF i2 l2 ct])
  qed
qed

lemma attempt_inv:
  assumes "registry_inv s" and "attempt c e q msg opts s = (r, s1, m1, o1)"
  shows "registry_inv s1"
proof (cases "conn_get e")
  case (Inl err)
  with assms show ?thesis by (auto simp: attempt_def registry_inv_emit)
next
  case (Inr ch)
  define p where "p = (if truthy msg then msg else JNull)"
  define o0 where "o0 = (case opts of None \<Rightarrow> default_options | Some x \<Rightarrow> x)"
  define s2 where "s2 = emit (TransportInfo ''amqp:producer'' (''['' @ q @ ''] > '') p)
               ((emit ConnGet s)\<lparr>channel := Some ch\<rparr>)"
  have unf: "attempt c e q msg opts s =
      (case checkRpc c e q (parsers_out c p o0) o0 s2 of (r, s3, o2) \<Rightarrow> (r, s3, p, Some o2))"
    using Inr by (simp add: attempt_def produce_then_def Let_def p_def o0_def s2_def)
  obtain r' s' o' where c: "checkRpc c e q (parsers_out c p o0) o0 s2 = (r', s', o')"
    by (cases "checkRpc c e q (parsers_out c p o0) o0 s2") auto
  from assms(2) unf c have eq: "s1 = s'" by simp
  have "registry_inv s2" using assms(1) by (simp add: s2_def registry_inv_emit registry_inv_channel)
  from checkRpc_inv [OF this c] eq show ?thesis by simp
qed

lemma produce_inv:
  assumes "registry_inv s"
  shows "registry_inv (snd (produce c es q msg opts s))"
  using assms
proof (induction es arbitrary: msg opts s)
  case Nil
  then show ?case by simp
next
  case (Cons e es)
  obtain r s1 m1 o1 where a: "attempt c e q msg opts s = (r, s1, m1, o1)"
    by (cases "attempt c e q msg opts s") auto
  note i1 = attempt_inv [OF Cons.prems a]
  show ?case
  proof (cases "\<exists>err. r = Rejected err")
    case True
    then obtain err where r: "r = Rejected err" by blast
    have st: "produce c (e # es) q msg opts s = produce c es q m1 o1 (on_error c err s1)"
      using a r by simp
    have "registry_inv (on_error c err s1)"
      using i1 by (simp add: registry_inv_on_error)
    from Cons.IH [OF this] show ?thesis unfolding st .
  next
    case False
    then have nr: "\<forall>err. r \<noteq> Rejected err" by blast
    show ?thesis unfolding produce_settled_step [OF a nr] using i1 by simp
  qed
qed

lemma maybeAnswer_cases:
  assumes "maybeAnswer c q msg s = Inr s1"
  shows "s1 = s \<or> (\<exists>obj k. amqpRPCQueues s q = Some obj
           \<and> amqpRPCQueues s1 = (amqpRPCQueues s)(q \<mapsto> obj(k := None))
           \<and> listeners s1 = listeners s)"
proof -
  from assms obtain obj where obj: "amqpRPCQueues s q = Some obj"
    by (auto simp: maybeAnswer_def Let_def split: option.splits)
  define k where "k = (case properties_correlationId msg of None \<Rightarrow> ''undefined'' | Some k \<Rightarrow> k)"
  show ?thesis
  proof (cases "own obj k")
    case JUndefined
    with assms obj have "s1 = s" by (simp add: maybeAnswer_def Let_def k_def)
    then show ?thesis by simp
  next
    case (JDeferred a)
    with assms obj have "amqpRPCQueues s1 = (amqpRPCQueues s)(q \<mapsto> obj(k := None))
        \<and> listeners s1 = listeners s"
      by (auto simp: maybeAnswer_def Let_def k_def resolve_def emit_def)
    with obj show ?thesis by blast
  qed (use assms obj in \<open>simp_all add: maybeAnswer_def Let_def k_def\<close>)
qed

lemma registry_invI:
  assumes "\<And>q obj. amqpRPCQueues s q = Some obj \<Longrightarrow> truthy (own obj ''queue'')
             \<Longrightarrow> (q, False) \<in> set (listeners s)"
    and "\<And>q once. (q, once) \<in> set (listeners s) \<Longrightarrow> \<not> once"
    and "\<And>q once. (q, once) \<in> set (listeners s) \<Longrightarrow> amqpRPCQueues s q \<noteq> None"
  shows "registry_inv s"
  unfolding registry_inv_def using assms by blast

lemma registry_inv_named:
  assumes "registry_inv s" and "amqpRPCQueues s q = Some obj" and "truthy (own obj ''queue'')"
  shows "(q, False) \<in> set (listeners s)"
  using assms unfolding registry_inv_def by blast

lemma registry_inv_persistent:
  assumes "registry_inv s" and "(q, once) \<in> set (listeners s)"
  shows "\<not> once"
  using assms unfolding registry_inv_def by blast

lemma registry_inv_entry:
  assumes "registry_inv s" and "(q, once) \<in> set (listeners s)"
  shows "amqpRPCQueues s q \<noteq> None"
  using assms unfolding registry_inv_def by blast

lemma own_delete:
  assumes "truthy (own (obj(k := None)) x)"
  shows "truthy (own obj x)"
proof (cases "x = k")
  case True
  with assms show ?thesis by (simp add: own_def)
next
  case False
  with assms show ?thesis by (simp add: own_def)
qed

lemma registry_inv_delete:
  assumes "registry_inv s" and "amqpRPCQueues s q = Some obj"
    and "amqpRPCQueues s1 = (amqpRPCQueues s)(q \<mapsto> obj(k := None))"
    and "listeners s1 = listeners s"
  shows "registry_inv s1"
proof (rule registry_invI)
  fix q' obj'
  assume a: "amqpRPCQueues s1 q' = Some obj'" and b: "truthy (own obj' ''queue'')"
  show "(q', False) \<in> set (listeners s1)"
  proof (cases "q' = q")
    case True
    with a assms(3) have "obj' = obj(k := None)" by simp
    with b have "truthy (own (obj(k := None)) ''queue'')" by simp
    then have "truthy (own obj ''queue'')" by (rule own_delete)
    from registry_inv_named [OF assms(1,2) this] True assms(4) show ?thesis by simp
  next
    case False
    with a assms(3) have "amqpRPCQueues s q' = Some obj'" by simp
    from registry_inv_named [OF assms(1) this b] assms(4) show ?thesis by simp
  qed
next
  fix q' once assume "(q', once) \<in> set (listeners s1)"
  then have l: "(q', once) \<in> set (listeners s)" using assms(4) by simp
  from registry_inv_persistent [OF assms(1) l] show "\<not> once" .
  from registry_inv_entry [OF assms(1) l] assms(3) show "amqpRPCQueues s1 q' \<noteq> None"
    by (cases "q' = q") simp_all
qed

lemma maybeAnswer_inv:
  assumes "registry_inv s" and "maybeAnswer c q msg s = Inr s1"
  shows "registry_inv s1"
proof -
  from maybeAnswer_cases [OF assms(2)]
  consider "s1 = s"
    | obj k where "amqpRPCQueues s q = Some obj"
        "amqpRPCQueues s1 = (amqpRPCQueues s)(q \<mapsto> obj(k := None))" "listeners s1 = listeners s"
    by blast
  then show ?thesis
  proof cases
    case 1
    with assms(1) show ?thesis by simp
  next
    case 2
    show ?thesis by (rule registry_inv_delete [OF assms(1) 2])
  qed
qed

lemma run_listeners_ok:
  assumes "\<forall>q once. (q, once) \<in> set ls \<longrightarrow> amqpRPCQueues s q \<noteq> None"
  shows "\<exists>s'. run_listeners ls s = Inr s'
      \<and> (\<forall>q. amqpRPCQueues s' q =
            (if q \<in> fst ` set ls
             then map_option (\<lambda>obj. obj(''queue'' \<mapsto> JNull)) (amqpRPCQueues s q)
             else amqpRPCQueues s q))
      \<and> listeners s' = listeners s \<and> channel s' = channel s
      \<and> deferreds s' = deferreds s \<and> trace s' = trace s"
  using assms
proof (induction ls arbitrary: s)
  case Nil
  show ?case by simp
next
  case (Cons l ls)
  obtain q0 once0 where l: "l = (q0, once0)" by (cases l)
  from Cons.prems l obtain obj where obj: "amqpRPCQueues s q0 = Some obj" by auto
  let ?s1 = "s\<lparr>amqpRPCQueues := (amqpRPCQueues s)(q0 \<mapsto> obj(''queue'' \<mapsto> JNull))\<rparr>"
  have pre: "\<forall>q once. (q, once) \<in> set ls \<longrightarrow> amqpRPCQueues ?s1 q \<noteq> None"
    using Cons.prems by auto
  from Cons.IH [OF pre] obtain s' where s': "run_listeners ls ?s1 = Inr s'"
    "\<forall>q. amqpRPCQueues s' q =
            (if q \<in> fst ` set ls
             then map_option (\<lambda>obj. obj(''queue'' \<mapsto> JNull)) (amqpRPCQueues ?s1 q)
             else amqpRPCQueues ?s1 q)"
    "listeners s' = listeners ?s1" "channel s' = channel ?s1"
    "deferreds s' = deferreds ?s1" "trace s' = trace ?s1"
    by blast
  have run: "run_listeners (l # ls) s = Inr s'"
    using l obj s'(1) by simp
  have reg: "\<forall>q. amqpRPCQueues s' q =
            (if q \<in> fst ` set (l # ls)
             then map_option (\<lambda>obj. obj(''queue'' \<mapsto> JNull)) (amqpRPCQueues s q)
             else amqpRPCQueues s q)"
    using s'(2) l obj by auto
  show ?case using run reg s'(3-6) by simp
qed

section \<open>The close event\<close>

lemma filter_persistent:
  assumes "\<forall>q once. (q, once) \<in> set ls \<longrightarrow> \<not> once"
  shows "filter (\<lambda>l. \<not> snd l) ls = ls"
proof -
  have "\<forall>l \<in> set ls. \<not> snd l"
  proof
    fix l assume "l \<in> set ls"
    then have "(fst l, snd l) \<in> set ls" by simp
    with assms show "\<not> snd l" by blast
  qed
  then show ?thesis by (simp add: filter_id_conv)
qed

lemma close_event_ok:
  assumes "registry_inv s"
  shows "\<exists>s'. close_event s = Inr s'
      \<and> (\<forall>q. amqpRPCQueues s' q =
            (if q \<in> fst ` set (listeners s)
             then map_option (\<lambda>obj. obj(''queue'' \<mapsto> JNull)) (amqpRPCQueues s q)
             else amqpRPCQueues s q))
      \<and> listeners s' = listeners s \<and> channel s' = channel s
      \<and> deferreds s' = deferreds s \<and> trace s' = trace s"
proof -
  have e: "\<forall>q once. (q, once) \<in> set (listeners s) \<longrightarrow> amqpRPCQueues s q \<noteq> None"
    using assms registry_inv_entry by blast
  have p: "\<forall>q once. (q, once) \<in> set (listeners s) \<longrightarrow> \<not> once"
    using assms registry_inv_persistent by blast
  from run_listeners_ok [OF e] obtain s1 where s1: "run_listeners (listeners s) s = Inr s1"
    "\<forall>q. amqpRPCQueues s1 q =
            (if q \<in> fst ` set (listeners s)
             then map_option (\<lambda>obj. obj(''queue'' \<mapsto> JNull)) (amqpRPCQueues s q)
             else amqpRPCQueues s q)"
    "listeners s1 = listeners s" "channel s1 = channel s"
    "deferreds s1 = deferreds s" "trace s1 = trace s"
    by blast
  let ?s' = "s1\<lparr>listeners := filter (\<lambda>l. \<not> snd l) (listeners s1)\<rparr>"
  have c: "close_event s = Inr ?s'" using s1(1) by (simp add: close_event_def)
  have l: "listeners ?s' = listeners s" using s1(3) filter_persistent [OF p] by simp
  show ?thesis
    apply (rule exI [of _ ?s'])
    using c l s1(2,4,5,6) by simp
qed

lemma createRpcQueue_declares:
  assumes "amqpRPCQueues s q = Some obj" and "\<not> truthy (own obj ''queue'')"
    and "channel s = Some ch"
  shows "\<exists>evs. trace (snd (createRpcQueue c e q s)) =
           trace s @ AssertQueue ch (q @ '':'' @ hostname c @ '':res'') True True # evs"
proof (cases "assertQueue e")
  case (Inl err)
  with assms show ?thesis by (simp add: createRpcQueue_def emit_def Let_def)
next
  case (Inr n)
  show ?thesis
  proof (cases "consume e")
    case (Inl err)
    with assms \<open>assertQueue e = Inr n\<close> show ?thesis
      by (simp add: createRpcQueue_def createRpcQueue_then_def emit_def Let_def)
  next
    case (Inr u)
    with assms \<open>assertQueue e = Inr n\<close> show ?thesis
      by (simp add: createRpcQueue_def createRpcQueue_then_def emit_def Let_def)
  qed
qed

lemma checkRpc_then_extends:
  "\<exists>evs. trace (fst (snd (checkRpc_then e q b opts s))) = trace s @ evs"
proof -
  obtain r s1 o1 where c: "checkRpc_then e q b opts s = (r, s1, o1)"
    by (cases "checkRpc_then e q b opts s") auto
  then have "\<exists>evs. trace s1 = trace s @ evs"
    by (auto simp: checkRpc_then_def publishOrSendToQueue_def emit_def Let_def
        split: option.splits sum.splits if_splits)
  then show ?thesis unfolding c by simp
qed

lemma checkRpc_declares:
  assumes "truthy (rpc opts)" and "channel s = Some ch"
    and "\<forall>obj. amqpRPCQueues s q = Some obj \<longrightarrow> \<not> truthy (own obj ''queue'')"
  shows "\<exists>evs. trace (fst (snd (checkRpc c e q b opts s))) =
           trace s @ AssertQueue ch (q @ '':'' @ hostname c @ '':res'') True True # evs"
proof -
  define s0 where "s0 = (case amqpRPCQueues s q of
      None \<Rightarrow> s\<lparr>amqpRPCQueues := (amqpRPCQueues s)(q \<mapsto> Map.empty)\<rparr> | Some obj \<Rightarrow> s)"
  have t0: "trace s0 = trace s" and c0: "channel s0 = Some ch"
    using assms(2) by (simp_all add: s0_def split: option.splits)
  have "\<exists>obj. amqpRPCQueues s0 q = Some obj \<and> \<not> truthy (own obj ''queue'')"
  proof (cases "amqpRPCQueues s q")
    case None
    then show ?thesis by (simp add: s0_def own_def)
  next
    case (Some obj)
    with assms(3) show ?thesis by (simp add: s0_def)
  qed
  then obtain obj where obj: "amqpRPCQueues s0 q = Some obj" "\<not> truthy (own obj ''queue'')"
    by blast
  obtain r' s2 where cq: "createRpcQueue c e q s0 = (r', s2)"
    by (cases "createRpcQueue c e q s0") auto
  from createRpcQueue_declares [OF obj c0, of c e] obtain evs where
    t2: "trace s2 = trace s @ AssertQueue ch (q @ '':'' @ hostname c @ '':res'') True True # evs"
    unfolding cq t0 by auto
  have unf: "checkRpc c e q b opts s =
      (case r' of Inl err \<Rightarrow> (Rejected err, s2, opts\<lparr>persistent := JBool True\<rparr>)
       | Inr v \<Rightarrow> checkRpc_then e q b (opts\<lparr>persistent := JBool True\<rparr>) s2)"
    unfolding checkRpc_rpc [OF assms(1)] s0_def [symmetric] cq by simp
  show ?thesis
  proof (cases r')
    case (Inl err)
    then show ?thesis unfolding unf using t2 by simp
  next
    case (Inr v)
    from checkRpc_then_extends [of e q b "opts\<lparr>persistent := JBool True\<rparr>" s2]
    obtain evs' where "trace (fst (snd (checkRpc_then e q b (opts\<lparr>persistent := JBool True\<rparr>) s2)))
        = trace s2 @ evs'" by blast
    then show ?thesis unfolding unf using t2 Inr by simp
  qed
qed

lemma attempt_declares:
  assumes "conn_get e = Inr ch" and "truthy (rpc opts)"
    and "\<forall>obj. amqpRPCQueues s q = Some obj \<longrightarrow> \<not> truthy (own obj ''queue'')"
  shows "\<exists>evs. trace (fst (snd (attempt c e q msg (Some opts) s))) = trace s @
      [ConnGet,
       TransportInfo ''amqp:producer'' (''['' @ q @ ''] > '') (if truthy msg then msg else JNull),
       AssertQueue ch (q @ '':'' @ hostname c @ '':res'') True True] @ evs"
proof -
  define p where "p = (if truthy msg then msg else JNull)"
  define s2 where "s2 = emit (TransportInfo ''amqp:producer'' (''['' @ q @ ''] > '') p)
               ((emit ConnGet s)\<lparr>channel := Some ch\<rparr>)"
  have unf: "attempt c e q msg (Some opts) s =
      (case checkRpc c e q (parsers_out c p opts) opts s2 of (r, s3, o2) \<Rightarrow> (r, s3, p, Some o2))"
    using assms(1) by (simp add: attempt_def produce_then_def Let_def p_def s2_def)
  have t2: "trace s2 = trace s @ [ConnGet, TransportInfo ''amqp:producer'' (''['' @ q @ ''] > '') p]"
    and c2: "channel s2 = Some ch" and r2: "amqpRPCQueues s2 = amqpRPCQueues s"
    by (simp_all add: s2_def emit_def)
  have n2: "\<forall>obj. amqpRPCQueues s2 q = Some obj \<longrightarrow> \<not> truthy (own obj ''queue'')"
    using assms(3) r2 by simp
  obtain r' s' o' where ck: "checkRpc c e q (parsers_out c p opts) opts s2 = (r', s', o')"
    by (cases "checkRpc c e q (parsers_out c p opts) opts s2") auto
  from checkRpc_declares [OF assms(2) c2 n2, of c e "parsers_out c p opts"] obtain evs where
    "trace s' = trace s2 @ AssertQueue ch (q @ '':'' @ hostname c @ '':res'') True True # evs"
    unfolding ck by auto
  then have "trace (fst (snd (attempt c e q msg (Some opts) s))) = trace s @
      [ConnGet, TransportInfo ''amqp:producer'' (''['' @ q @ ''] > '') p,
       AssertQueue ch (q @ '':'' @ hostname c @ '':res'') True True] @ evs"
    unfolding unf ck t2 by simp
  then show ?thesis unfolding p_def by blast
qed

lemma produce_extends_attempt:
  "\<exists>evs. trace (snd (produce c (e # es) q msg opts s))
      = trace (fst (snd (attempt c e q msg opts s))) @ evs"
proof -
  obtain r s1 m1 o1 where a: "attempt c e q msg opts s = (r, s1, m1, o1)"
    by (cases "attempt c e q msg opts s") auto
  show ?thesis
  proof (cases "\<exists>err. r = Rejected err")
    case True
    then obtain err where r: "r = Rejected err" by blast
    have st: "produce c (e # es) q msg opts s = produce c es q m1 o1 (on_error c err s1)"
      using a r by simp
    from produce_trace [of c es q m1 o1 "on_error c err s1"]
    obtain evs where "trace (snd (produce c es q m1 o1 (on_error c err s1)))
        = trace (on_error c err s1) @ evs" by blast
    then show ?thesis unfolding st a by (simp add: on_error_def emit_def)
  next
    case False
    then have nr: "\<forall>err. r \<noteq> Rejected err" by blast
    show ?thesis unfolding produce_settled_step [OF a nr] a by simp
  qed
qed

text \<open>
  C6, as amended. In a state that satisfies the invariant, the \<open>close\<close> event runs every
  listener without an exception; every destination whose object held a truthy queue name
  now holds \<open>null\<close> under \<open>queue\<close>, and no destination holds a truthy name; so the next RPC
  produce on any destination that is granted a channel declares \<open>queue:hostname:res\<close>
  again, right after logging the payload. The listeners were registered with \<open>addListener\<close>,
  none of them as a one-time listener, and all of them are still registered after the
  event.
\<close>

theorem close_clears_response_queues:
  assumes "registry_inv s"
  shows "\<exists>s'. close_event s = Inr s'
     \<and> (\<forall>q obj. amqpRPCQueues s q = Some obj \<longrightarrow> truthy (own obj ''queue'')
           \<longrightarrow> (\<exists>obj'. amqpRPCQueues s' q = Some obj' \<and> obj' ''queue'' = Some JNull))
     \<and> (\<forall>q obj'. amqpRPCQueues s' q = Some obj' \<longrightarrow> \<not> truthy (own obj' ''queue''))
     \<and> listeners s' = listeners s
     \<and> (\<forall>q once. (q, once) \<in> set (listeners s) \<longrightarrow> \<not> once)
     \<and> (\<forall>(e::env) ch q msg (opts::options) es. conn_get e = Inr ch \<longrightarrow> truthy (rpc opts) \<longrightarrow>
          (\<exists>evs. trace (snd (produce c (e # es) q msg (Some opts) s')) = trace s' @
             [ConnGet,
              TransportInfo ''amqp:producer'' (''['' @ q @ ''] > '')
                (if truthy msg then msg else JNull),
              AssertQueue ch (q @ '':'' @ hostname c @ '':res'') True True] @ evs))"
proof -
  from close_event_ok [OF assms] obtain s' where s': "close_event s = Inr s'"
    "\<forall>q. amqpRPCQueues s' q =
            (if q \<in> fst ` set (listeners s)
             then map_option (\<lambda>obj. obj(''queue'' \<mapsto> JNull)) (amqpRPCQueues s q)
             else amqpRPCQueues s q)"
    "listeners s' = listeners s"
    by blast
  have cleared: "\<forall>q obj. amqpRPCQueues s q = Some obj \<longrightarrow> truthy (own obj ''queue'')
           \<longrightarrow> (\<exists>obj'. amqpRPCQueues s' q = Some obj' \<and> obj' ''queue'' = Some JNull)"
  proof (intro allI impI)
    fix q obj assume a: "amqpRPCQueues s q = Some obj" "truthy (own obj ''queue'')"
    from registry_inv_named [OF assms a] have "q \<in> fst ` set (listeners s)" by force
    with s'(2) a(1) have "amqpRPCQueues s' q = Some (obj(''queue'' \<mapsto> JNull))" by simp
    then show "\<exists>obj'. amqpRPCQueues s' q = Some obj' \<and> obj' ''queue'' = Some JNull" by simp
  qed
  have none: "\<forall>q obj'. amqpRPCQueues s' q = Some obj' \<longrightarrow> \<not> truthy (own obj' ''queue'')"
  proof (intro allI impI)
    fix q obj' assume a: "amqpRPCQueues s' q = Some obj'"
    show "\<not> truthy (own obj' ''queue'')"
    proof (cases "q \<in> fst ` set (listeners s)")
      case True
      with s'(2) a obtain obj where "obj' = obj(''queue'' \<mapsto> JNull)" by auto
      then show ?thesis by (simp add: own_def)
    next
      case False
      with s'(2) a have b: "amqpRPCQueues s q = Some obj'" by simp
      show ?thesis
      proof
        assume "truthy (own obj' ''queue'')"
        from registry_inv_named [OF assms b this] False show False by force
      qed
    qed
  qed
  have pers: "\<forall>q once. (q, once) \<in> set (listeners s) \<longrightarrow> \<not> once"
    using assms registry_inv_persistent by blast
  have decl: "\<forall>(e::env) ch q msg (opts::options) es. conn_get e = Inr ch \<longrightarrow> truthy (rpc opts) \<longrightarrow>
          (\<exists>evs. trace (snd (produce c (e # es) q msg (Some opts) s')) = trace s' @
             [ConnGet,
              TransportInfo ''amqp:producer'' (''['' @ q @ ''] > '')
                (if truthy msg then msg else JNull),
              AssertQueue ch (q @ '':'' @ hostname c @ '':res'') True True] @ evs)"
  proof (intro allI impI)
    fix e :: env and ch q msg and opts :: options and es
    assume g: "conn_get e = Inr ch" and r: "truthy (rpc opts)"
    from none have n: "\<forall>obj. amqpRPCQueues s' q = Some obj \<longrightarrow> \<not> truthy (own obj ''queue'')"
      by blast
    from attempt_declares [OF g r n, of c msg] obtain evs1 where
      1: "trace (fst (snd (attempt c e q msg (Some opts) s'))) = trace s' @
          [ConnGet,
           TransportInfo ''amqp:producer'' (''['' @ q @ ''] > '') (if truthy msg then msg else JNull),
           AssertQueue ch (q @ '':'' @ hostname c @ '':res'') True True] @ evs1"
      by blast
    from produce_extends_attempt [of c e es q msg "Some opts" s'] obtain evs2 where
      2: "trace (snd (produce c (e # es) q msg (Some opts) s'))
          = trace (fst (snd (attempt c e q msg (Some opts) s'))) @ evs2"
      by blast
    show "\<exists>evs. trace (snd (produce c (e # es) q msg (Some opts) s')) = trace s' @
             [ConnGet,
              TransportInfo ''amqp:producer'' (''['' @ q @ ''] > '')
                (if truthy msg then msg else JNull),
              AssertQueue ch (q @ '':'' @ hostname c @ '':res'') True True] @ evs"
      unfolding 2 1 by simp
  qed
  show ?thesis
    apply (rule exI [of _ s'])
    using s'(1) cleared none s'(3) pers decl by blast
qed

text \<open>
  After one RPC produce to \<open>service-x\<close>: the event sets the name to \<open>null\<close>, the listener
  stays, and the next RPC produce declares \<open>service-x:gateway:res\<close> again.
\<close>

theorem close_clears_response_queues_witness:
  "registry_inv s_rpc
   \<and> truthy (own [''queue'' \<mapsto> JString ''service-x:gateway:res'', ''c-1'' \<mapsto> JDeferred 0] ''queue'')
   \<and> conn_get e_ok = Inr 1
   \<and> truthy (rpc rpc_options)
   \<and> (\<exists>s'. close_event s_rpc = Inr s'
         \<and> (\<exists>obj'. amqpRPCQueues s' ''service-x'' = Some obj' \<and> obj' ''queue'' = Some JNull)
         \<and> listeners s' = [(''service-x'', False)]
         \<and> (\<exists>evs. trace (snd (produce c0 [e_ok] ''service-x'' ping (Some rpc_options) s')) =
               trace s' @
               [ConnGet, TransportInfo ''amqp:producer'' ''[service-x] > '' ping,
                AssertQueue 1 ''service-x:gateway:res'' True True] @ evs))"
proof -
  let ?obj = "[''queue'' \<mapsto> JString ''service-x:gateway:res'', ''c-1'' \<mapsto> JDeferred 0]"
  have inv: "registry_inv s_rpc"
    unfolding s_rpc_def by (rule produce_inv [OF registry_inv_init])
  have h1: "amqpRPCQueues s_rpc ''service-x'' = Some ?obj" by (simp add: s_rpc_val)
  have h2: "truthy (own ?obj ''queue'')" by (simp add: own_def)
  have h3: "conn_get e_ok = Inr 1" by (simp add: e_ok_def)
  have h4: "truthy (rpc rpc_options)" by (simp add: rpc_options_def default_options_def)
  have l: "listeners s_rpc = [(''service-x'', False)]" by (simp add: s_rpc_val)
  from close_clears_response_queues [OF inv, of c0] obtain s' where s':
    "close_event s_rpc = Inr s'"
    "\<forall>q obj. amqpRPCQueues s_rpc q = Some obj \<longrightarrow> truthy (own obj ''queue'')
           \<longrightarrow> (\<exists>obj'. amqpRPCQueues s' q = Some obj' \<and> obj' ''queue'' = Some JNull)"
    "listeners s' = listeners s_rpc"
    "\<forall>(e::env) ch q msg (opts::options) es. conn_get e = Inr ch \<longrightarrow> truthy (rpc opts) \<longrightarrow>
          (\<exists>evs. trace (snd (produce c0 (e # es) q msg (Some opts) s')) = trace s' @
             [ConnGet,
              TransportInfo ''amqp:producer'' (''['' @ q @ ''] > '')
                (if truthy msg then msg else JNull),
              AssertQueue ch (q @ '':'' @ hostname c0 @ '':res'') True True] @ evs)"
    by blast
  from s'(2) h1 h2 have 1: "\<exists>obj'. amqpRPCQueues s' ''service-x'' = Some obj' \<and> obj' ''queue'' = Some JNull"
    by blast
  from s'(3) l have 2: "listeners s' = [(''service-x'', False)]" by simp
  from s'(4) h3 h4 have "\<exists>evs. trace (snd (produce c0 (e_ok # []) ''service-x'' ping (Some rpc_options) s')) =
      trace s' @
        [ConnGet,
         TransportInfo ''amqp:producer'' (''['' @ ''service-x'' @ ''] > '')
           (if truthy ping then ping else JNull),
         AssertQueue 1 (''service-x'' @ '':'' @ hostname c0 @ '':res'') True True] @ evs"
    by blast
  then have 3: "\<exists>evs. trace (snd (produce c0 [e_ok] ''service-x'' ping (Some rpc_options) s')) =
               trace s' @
               [ConnGet, TransportInfo ''amqp:producer'' ''[service-x] > '' ping,
                AssertQueue 1 ''service-x:gateway:res'' True True] @ evs"
    by (simp add: ping_def c0_def)
  show ?thesis using inv h2 h3 h4 s'(1) 1 2 3 by blast
qed

text \<open>
  C6 as stated has the listener registered as a one-time listener. The listener that the
  first RPC produce registers is not one (its \<open>once\<close> flag is false), and it is still
  registered after the \<open>close\<close> event has fired.
\<close>

theorem close_listener_counterexample:
  "listeners s_rpc = [(''service-x'', False)]
   \<and> map_sum id listeners (close_event s_rpc) = Inr [(''service-x'', False)]"
  by (simp add: s_rpc_val close_event_def)

lemma close_event_inv:
  assumes "registry_inv s" and "close_event s = Inr s1"
  shows "registry_inv s1"
proof -
  from close_event_ok [OF assms(1)] assms(2) have s1:
    "\<forall>q. amqpRPCQueues s1 q =
            (if q \<in> fst ` set (listeners s)
             then map_option (\<lambda>obj. obj(''queue'' \<mapsto> JNull)) (amqpRPCQueues s q)
             else amqpRPCQueues s q)"
    "listeners s1 = listeners s"
    by auto
  show ?thesis
  proof (rule registry_invI)
    fix q obj
    assume a: "amqpRPCQueues s1 q = Some obj" and b: "truthy (own obj ''queue'')"
    show "(q, False) \<in> set (listeners s1)"
    proof (cases "q \<in> fst ` set (listeners s)")
      case True
      with s1(1) a obtain obj0 where "obj = obj0(''queue'' \<mapsto> JNull)" by auto
      with b show ?thesis by (simp add: own_def)
    next
      case False
      with s1(1) a have "amqpRPCQueues s q = Some obj" by simp
      from registry_inv_named [OF assms(1) this b] s1(2) show ?thesis by simp
    qed
  next
    fix q once assume "(q, once) \<in> set (listeners s1)"
    then have l: "(q, once) \<in> set (listeners s)" using s1(2) by simp
    from registry_inv_persistent [OF assms(1) l] show "\<not> once" .
    from registry_inv_entry [OF assms(1) l] obtain obj where "amqpRPCQueues s q = Some obj"
      by auto
    with s1(1) show "amqpRPCQueues s1 q \<noteq> None" by simp
  qed
qed

section \<open>The messages sent across retries\<close>

text \<open>
  Every message a run of \<open>produce\<close> hands to the channel goes to the destination of the
  call, is marked persistent, carries options that agree with the caller's on \<open>rpc\<close>,
  \<open>routingKey\<close> and \<open>durable\<close>, and its buffer is \<open>parsers.out\<close> of the payload under the
  options object as the attempt found it.
\<close>

lemmas demo2_defs = c1_def c_props_def e_cfail_def transient_options_def

lemma sends_append: "sends (xs @ ys) = sends xs @ sends ys"
  by (induction xs rule: sends.induct) simp_all

lemma sent_sends: "sent tr = map (\<lambda>x. fst (snd x)) (sends tr)"
  by (induction tr rule: sends.induct) simp_all

lemma same_request_refl: "same_request a a"
  by (simp add: same_request_def)

lemma same_request_trans: "same_request a b \<Longrightarrow> same_request b d \<Longrightarrow> same_request a d"
  by (simp add: same_request_def)

lemma same_request_sym: "same_request a b \<Longrightarrow> same_request b a"
  by (simp add: same_request_def)

lemma checkRpc_sends:
  assumes "checkRpc c e q b opts s = (r, s1, o1)"
  shows "same_request o1 opts
       \<and> (\<exists>evs. trace s1 = trace s @ evs
             \<and> (\<forall>x \<in> set (sends evs). fst x = q \<and> fst (snd x) = b
                    \<and> persistent (snd (snd x)) = JBool True \<and> same_request (snd (snd x)) opts))"
  using assms
  by (auto simp: checkRpc_def checkRpc_then_def createRpcQueue_def
      createRpcQueue_then_def publishOrSendToQueue_def emit_def own_def Let_def same_request_def
      split: sum.splits option.splits if_splits)

lemma attempt_sends:
  assumes "attempt c e q msg opts s = (r, s1, m1, o1)"
  shows "same_request (given_options o1) (given_options opts)
       \<and> (\<exists>evs. trace s1 = trace s @ ConnGet # evs
             \<and> (\<forall>x \<in> set (sends evs). fst x = q
                    \<and> fst (snd x) = parsers_out c (if truthy msg then msg else JNull) (given_options opts)
                    \<and> persistent (snd (snd x)) = JBool True
                    \<and> same_request (snd (snd x)) (given_options opts)))"
proof (cases "conn_get e")
  case (Inl err)
  with assms show ?thesis
    by (auto simp: attempt_def emit_def same_request_refl)
next
  case (Inr ch)
  define p where "p = (if truthy msg then msg else JNull)"
  define o0 where "o0 = given_options opts"
  define s2 where "s2 = emit (TransportInfo ''amqp:producer'' (''['' @ q @ ''] > '') p)
               ((emit ConnGet s)\<lparr>channel := Some ch\<rparr>)"
  have unf: "attempt c e q msg opts s =
      (case checkRpc c e q (parsers_out c p o0) o0 s2 of (r, s3, o2) \<Rightarrow> (r, s3, p, Some o2))"
    using Inr
    by (simp add: attempt_def produce_then_def Let_def p_def o0_def s2_def given_options_def)
  obtain r' s' o' where ck: "checkRpc c e q (parsers_out c p o0) o0 s2 = (r', s', o')"
    by (cases "checkRpc c e q (parsers_out c p o0) o0 s2") auto
  from assms unf ck have eq: "s1 = s'" "o1 = Some o'" by simp_all
  from checkRpc_sends [OF ck] obtain evs where evs: "same_request o' o0"
    "trace s' = trace s2 @ evs"
    "\<forall>x \<in> set (sends evs). fst x = q \<and> fst (snd x) = parsers_out c p o0
        \<and> persistent (snd (snd x)) = JBool True \<and> same_request (snd (snd x)) o0"
    by blast
  let ?evs = "TransportInfo ''amqp:producer'' (''['' @ q @ ''] > '') p # evs"
  have 1: "trace s1 = trace s @ ConnGet # ?evs"
    using evs(2) eq by (simp add: s2_def emit_def)
  have 2: "\<forall>x \<in> set (sends ?evs). fst x = q \<and> fst (snd x) = parsers_out c p o0
        \<and> persistent (snd (snd x)) = JBool True \<and> same_request (snd (snd x)) o0"
    using evs(3) by simp
  have 3: "same_request (given_options o1) o0"
    using evs(1) eq by (simp add: given_options_def)
  show ?thesis
    unfolding p_def [symmetric] o0_def [symmetric]
    using 1 2 3 by blast
qed

lemma attempt_given_options:
  assumes "attempt c e q msg opts s = (r, s1, m1, o1)"
  shows "same_request (given_options o1) (given_options opts)"
  using attempt_sends [OF assms] by blast

lemma produce_sends:
  "\<exists>evs. trace (snd (produce c es q msg opts s)) = trace s @ evs
     \<and> (\<forall>x \<in> set (sends evs). fst x = q
            \<and> persistent (snd (snd x)) = JBool True
            \<and> same_request (snd (snd x)) (given_options opts)
            \<and> (\<exists>o'. same_request o' (given_options opts)
                  \<and> fst (snd x) = parsers_out c (if truthy msg then msg else JNull) o'))"
proof (induction es arbitrary: msg opts s)
  case Nil
  show ?case by simp
next
  case (Cons e es)
  let ?p = "if truthy msg then msg else JNull"
  let ?o = "given_options opts"
  let ?ok = "\<lambda>x. fst x = q \<and> persistent (snd (snd x)) = JBool True
      \<and> same_request (snd (snd x)) ?o
      \<and> (\<exists>o'. same_request o' ?o \<and> fst (snd x) = parsers_out c ?p o')"
  obtain r s1 m1 o1 where a: "attempt c e q msg opts s = (r, s1, m1, o1)"
    by (cases "attempt c e q msg opts s") auto
  from attempt_sends [OF a] obtain evs0 where at:
    "same_request (given_options o1) ?o"
    "trace s1 = trace s @ ConnGet # evs0"
    "\<forall>x \<in> set (sends evs0). fst x = q \<and> fst (snd x) = parsers_out c ?p ?o
        \<and> persistent (snd (snd x)) = JBool True \<and> same_request (snd (snd x)) ?o"
    by blast
  have ok0: "\<forall>x \<in> set (sends evs0). ?ok x"
    using at(3) same_request_refl by blast
  show ?case
  proof (cases "\<exists>err. r = Rejected err")
    case True
    then obtain err where r: "r = Rejected err" by blast
    let ?s2 = "on_error c err s1"
    have st: "produce c (e # es) q msg opts s = produce c es q m1 o1 ?s2"
      using a r by simp
    have ts2: "trace ?s2 = trace s1 @ [TransportError ''amqp:producer'' err, TimeoutPromise (timeout c)]"
      by (simp add: on_error_def emit_def)
    from Cons.IH [of m1 o1 ?s2] obtain evs where ih:
      "trace (snd (produce c es q m1 o1 ?s2)) = trace ?s2 @ evs"
      "\<forall>x \<in> set (sends evs). fst x = q
            \<and> persistent (snd (snd x)) = JBool True
            \<and> same_request (snd (snd x)) (given_options o1)
            \<and> (\<exists>o'. same_request o' (given_options o1) \<and> fst (snd x) = parsers_out c ?p o')"
      unfolding attempt_msg [OF a] by blast
    have ok1: "\<forall>x \<in> set (sends evs). ?ok x"
    proof
      fix x assume "x \<in> set (sends evs)"
      with ih(2) obtain o' where x: "fst x = q" "persistent (snd (snd x)) = JBool True"
        "same_request (snd (snd x)) (given_options o1)"
        "same_request o' (given_options o1)" "fst (snd x) = parsers_out c ?p o'"
        by blast
      from same_request_trans [OF x(3) at(1)] same_request_trans [OF x(4) at(1)] x(1,2,5)
      show "?ok x" by blast
    qed
    let ?evs = "ConnGet # evs0 @ [TransportError ''amqp:producer'' err, TimeoutPromise (timeout c)] @ evs"
    have 1: "trace (snd (produce c (e # es) q msg opts s)) = trace s @ ?evs"
      unfolding st ih(1) ts2 at(2) by simp
    have 2: "sends ?evs = sends evs0 @ sends evs" by (simp add: sends_append)
    have 3: "\<forall>x \<in> set (sends ?evs). ?ok x"
    proof
      fix x assume "x \<in> set (sends ?evs)"
      then have "x \<in> set (sends evs0) \<or> x \<in> set (sends evs)" unfolding 2 by simp
      then show "?ok x" using ok0 ok1 by blast
    qed
    show ?thesis
      apply (rule exI [of _ ?evs])
      using 1 3 by blast
  next
    case False
    then have nr: "\<forall>err. r \<noteq> Rejected err" by blast
    have st: "produce c (e # es) q msg opts s = (Some r, s1)"
      by (rule produce_settled_step [OF a nr])
    have 2: "sends (ConnGet # evs0) = sends evs0" by simp
    have 3: "\<forall>x \<in> set (sends (ConnGet # evs0)). ?ok x" unfolding 2 by (rule ok0)
    have 1: "trace (snd (produce c (e # es) q msg opts s)) = trace s @ ConnGet # evs0"
      unfolding st using at(2) by simp
    show ?thesis
      apply (rule exI [of _ "ConnGet # evs0"])
      using 1 3 by blast
  qed
qed

lemma produce_settled_events:
  assumes "fst (produce c es q msg opts s) \<noteq> None"
  shows "\<exists>evs. trace (snd (produce c es q msg opts s)) = trace s @ evs
           \<and> payloads evs \<noteq> [] \<and> sends evs \<noteq> []"
  using assms
proof (induction es arbitrary: msg opts s)
  case Nil
  then show ?case by simp
next
  case (Cons e es)
  obtain r s1 m1 o1 where a: "attempt c e q msg opts s = (r, s1, m1, o1)"
    by (cases "attempt c e q msg opts s") auto
  from attempt_trace [OF a] obtain evs0 where at:
    "trace s1 = trace s @ ConnGet # evs0"
    "(\<forall>err. r \<noteq> Rejected err) \<longrightarrow>
        payloads evs0 = [if truthy msg then msg else JNull] \<and> sent evs0 \<noteq> []"
    by blast
  show ?case
  proof (cases "\<exists>err. r = Rejected err")
    case True
    then obtain err where r: "r = Rejected err" by blast
    let ?s2 = "on_error c err s1"
    have st: "produce c (e # es) q msg opts s = produce c es q m1 o1 ?s2"
      using a r by simp
    have ts2: "trace ?s2 = trace s1 @ [TransportError ''amqp:producer'' err, TimeoutPromise (timeout c)]"
      by (simp add: on_error_def emit_def)
    have "fst (produce c es q m1 o1 ?s2) \<noteq> None" using Cons.prems unfolding st .
    from Cons.IH [OF this] obtain evs where ih:
      "trace (snd (produce c es q m1 o1 ?s2)) = trace ?s2 @ evs"
      "payloads evs \<noteq> []" "sends evs \<noteq> []"
      by blast
    let ?evs = "ConnGet # evs0 @ [TransportError ''amqp:producer'' err, TimeoutPromise (timeout c)] @ evs"
    have 1: "trace (snd (produce c (e # es) q msg opts s)) = trace s @ ?evs"
      unfolding st ih(1) ts2 at(1) by simp
    have 2: "payloads ?evs \<noteq> []" using ih(2) by (simp add: payloads_append)
    have 3: "sends ?evs \<noteq> []" using ih(3) by (simp add: sends_append)
    show ?thesis
      apply (rule exI [of _ ?evs])
      using 1 2 3 by blast
  next
    case False
    then have nr: "\<forall>err. r \<noteq> Rejected err" by blast
    have st: "produce c (e # es) q msg opts s = (Some r, s1)"
      by (rule produce_settled_step [OF a nr])
    from at(2) nr have "payloads evs0 \<noteq> []" "sent evs0 \<noteq> []" by simp_all
    then have 2: "payloads (ConnGet # evs0) \<noteq> []" and 3: "sends (ConnGet # evs0) \<noteq> []"
      by (simp_all add: sent_sends)
    have 1: "trace (snd (produce c (e # es) q msg opts s)) = trace s @ ConnGet # evs0"
      unfolding st using at(1) by simp
    show ?thesis
      apply (rule exI [of _ "ConnGet # evs0"])
      using 1 2 3 by blast
  qed
qed






section \<open>Falsy payloads\<close>

lemma produce_then_falsy:
  assumes "\<not> truthy msg"
  shows "produce_then c e ch queue msg opts s =
       (case checkRpc c e queue (parsers_out c JNull (given_options opts)) (given_options opts)
               (emit (TransportInfo ''amqp:producer'' (''['' @ queue @ ''] > '') JNull)
                  (s\<lparr>channel := Some ch\<rparr>)) of
          (r, s3, o2) \<Rightarrow> (r, s3, JNull, Some o2))"
  using assms by (simp add: produce_then_def given_options_def Let_def)

lemma plain_send_falsy:
  assumes "\<not> truthy msg" and "conn_get e = Inr ch" and "\<not> truthy (rpc (given_options opts))"
    and "send e = Inr b" and "o0 = given_options opts"
  shows "\<exists>s'. produce c (e # es) queue msg opts s = (Some (Fulfilled (JBool b)), s')
           \<and> trace s' = trace s @
               [ConnGet,
                TransportInfo ''amqp:producer'' (''['' @ queue @ ''] > '') JNull,
                (if truthy (routingKey o0)
                 then Publish ch queue (routingKey o0) (parsers_out c JNull o0)
                        (o0\<lparr>persistent := JBool True\<rparr>)
                 else SendToQueue ch queue (parsers_out c JNull o0)
                        (o0\<lparr>persistent := JBool True\<rparr>))]"
  using assms
  by (simp add: attempt_def produce_then_def checkRpc_def publishOrSendToQueue_def emit_def
      Let_def given_options_def)

lemma rpc_send_falsy:
  assumes "\<not> truthy msg" and "conn_get e = Inr ch" and "truthy (rpc opts)"
    and "amqpRPCQueues s queue = None" and "assertQueue e = Inr n" and "consume e = Inr ()"
    and "send e = Inr b"
    and "opts' = opts\<lparr>persistent := JBool True, correlationId := JString (uuid_v4 e),
                       replyTo := JString n\<rparr>"
  shows "\<exists>s'. produce c (e # es) queue msg (Some opts) s = (Some (Follows (length (deferreds s))), s')
           \<and> trace s' = trace s @
               [ConnGet,
                TransportInfo ''amqp:producer'' (''['' @ queue @ ''] > '') JNull,
                AssertQueue ch (queue @ '':'' @ hostname c @ '':res'') True True,
                Consume ch n queue True,
                (if truthy (routingKey opts)
                 then Publish ch queue (routingKey opts) (parsers_out c JNull opts) opts'
                 else SendToQueue ch queue (parsers_out c JNull opts) opts')]"
  using assms by (simp add: step_defs)

text \<open>
  C10. For every falsy payload (\<open>\<not> truthy msg\<close>: undefined, null, false, the empty
  string, NaN, zero of either sign) the produce call runs exactly as the call with the
  payload \<open>null\<close>: same result, same state, same calls. The callback logs \<open>null\<close>, hands
  \<open>parsers.out\<close> of \<open>null\<close> to \<open>checkRpc\<close> and leaves \<open>null\<close> in \<open>msg\<close> for the retries.
  Every payload logged is \<open>null\<close> and every buffer handed to the channel is the encoding
  of \<open>null\<close>; a call that settles has logged and sent at least once. When a channel is
  granted and the send accepted, the calls are exactly: \<open>conn.get()\<close>, the log of \<open>null\<close>,
  and the send of the encoding of \<open>null\<close>, preceded for a first RPC call by the
  declaration and the consumer.
\<close>

theorem falsy_payload_sent_as_null:
  assumes "\<not> truthy msg"
  shows "produce c es queue msg opts s = produce c es queue JNull opts s
       \<and> produce_then c e ch queue msg opts s =
           (case checkRpc c e queue (parsers_out c JNull (given_options opts)) (given_options opts)
                   (emit (TransportInfo ''amqp:producer'' (''['' @ queue @ ''] > '') JNull)
                      (s\<lparr>channel := Some ch\<rparr>)) of
              (r, s3, o2) \<Rightarrow> (r, s3, JNull, Some o2))
       \<and> (\<exists>evs. trace (snd (produce c es queue msg opts s)) = trace s @ evs
             \<and> set (payloads evs) \<subseteq> {JNull}
             \<and> (\<forall>x \<in> set (sends evs). fst x = queue
                    \<and> (\<exists>o'. same_request o' (given_options opts)
                          \<and> fst (snd x) = parsers_out c JNull o'))
             \<and> (fst (produce c es queue msg opts s) \<noteq> None
                    \<longrightarrow> payloads evs \<noteq> [] \<and> sends evs \<noteq> []))
       \<and> (\<forall>b. conn_get e = Inr ch \<longrightarrow> \<not> truthy (rpc (given_options opts)) \<longrightarrow> send e = Inr b \<longrightarrow>
             (\<exists>s'. produce c (e # es) queue msg opts s = (Some (Fulfilled (JBool b)), s')
                \<and> trace s' = trace s @
                    [ConnGet,
                     TransportInfo ''amqp:producer'' (''['' @ queue @ ''] > '') JNull,
                     (if truthy (routingKey (given_options opts))
                      then Publish ch queue (routingKey (given_options opts))
                             (parsers_out c JNull (given_options opts))
                             ((given_options opts)\<lparr>persistent := JBool True\<rparr>)
                      else SendToQueue ch queue (parsers_out c JNull (given_options opts))
                             ((given_options opts)\<lparr>persistent := JBool True\<rparr>))]))
       \<and> (\<forall>o1 n b. opts = Some o1 \<longrightarrow> conn_get e = Inr ch \<longrightarrow> truthy (rpc o1) \<longrightarrow>
             amqpRPCQueues s queue = None \<longrightarrow> assertQueue e = Inr n \<longrightarrow> consume e = Inr () \<longrightarrow>
             send e = Inr b \<longrightarrow>
             (\<exists>s'. produce c (e # es) queue msg opts s
                      = (Some (Follows (length (deferreds s))), s')
                \<and> trace s' = trace s @
                    [ConnGet,
                     TransportInfo ''amqp:producer'' (''['' @ queue @ ''] > '') JNull,
                     AssertQueue ch (queue @ '':'' @ hostname c @ '':res'') True True,
                     Consume ch n queue True,
                     (if truthy (routingKey o1)
                      then Publish ch queue (routingKey o1) (parsers_out c JNull o1)
                             (o1\<lparr>persistent := JBool True, correlationId := JString (uuid_v4 e),
                                 replyTo := JString n\<rparr>)
                      else SendToQueue ch queue (parsers_out c JNull o1)
                             (o1\<lparr>persistent := JBool True, correlationId := JString (uuid_v4 e),
                                 replyTo := JString n\<rparr>))]))"
proof (intro conjI allI impI)
  show "produce c es queue msg opts s = produce c es queue JNull opts s"
    by (rule produce_falsy [OF assms]) simp
next
  show "produce_then c e ch queue msg opts s =
           (case checkRpc c e queue (parsers_out c JNull (given_options opts)) (given_options opts)
                   (emit (TransportInfo ''amqp:producer'' (''['' @ queue @ ''] > '') JNull)
                      (s\<lparr>channel := Some ch\<rparr>)) of
              (r, s3, o2) \<Rightarrow> (r, s3, JNull, Some o2))"
    by (rule produce_then_falsy [OF assms])
next
  have p: "(if truthy msg then msg else JNull) = JNull" using assms by simp
  from produce_trace [of c es queue msg opts s] obtain evs where a:
    "trace (snd (produce c es queue msg opts s)) = trace s @ evs"
    "set (payloads evs) \<subseteq> {JNull}"
    unfolding p by blast
  from produce_sends [of c es queue msg opts s] obtain evs1 where b:
    "trace (snd (produce c es queue msg opts s)) = trace s @ evs1"
    "\<forall>x \<in> set (sends evs1). fst x = queue
            \<and> persistent (snd (snd x)) = JBool True
            \<and> same_request (snd (snd x)) (given_options opts)
            \<and> (\<exists>o'. same_request o' (given_options opts) \<and> fst (snd x) = parsers_out c JNull o')"
    unfolding p by blast
  have e1: "evs1 = evs" using a(1) b(1) by simp
  have 3: "\<forall>x \<in> set (sends evs). fst x = queue
                    \<and> (\<exists>o'. same_request o' (given_options opts)
                          \<and> fst (snd x) = parsers_out c JNull o')"
    using b(2) unfolding e1 by blast
  have 4: "fst (produce c es queue msg opts s) \<noteq> None
                    \<longrightarrow> payloads evs \<noteq> [] \<and> sends evs \<noteq> []"
  proof
    assume "fst (produce c es queue msg opts s) \<noteq> None"
    from produce_settled_events [OF this] obtain evs2 where c:
      "trace (snd (produce c es queue msg opts s)) = trace s @ evs2"
      "payloads evs2 \<noteq> []" "sends evs2 \<noteq> []"
      by blast
    have "evs2 = evs" using a(1) c(1) by simp
    with c(2,3) show "payloads evs \<noteq> [] \<and> sends evs \<noteq> []" by simp
  qed
  show "\<exists>evs. trace (snd (produce c es queue msg opts s)) = trace s @ evs
             \<and> set (payloads evs) \<subseteq> {JNull}
             \<and> (\<forall>x \<in> set (sends evs). fst x = queue
                    \<and> (\<exists>o'. same_request o' (given_options opts)
                          \<and> fst (snd x) = parsers_out c JNull o'))
             \<and> (fst (produce c es queue msg opts s) \<noteq> None
                    \<longrightarrow> payloads evs \<noteq> [] \<and> sends evs \<noteq> [])"
    by (intro exI [of _ evs] conjI a(1) a(2) 3 4)
next
  fix b
  assume "conn_get e = Inr ch" "\<not> truthy (rpc (given_options opts))" "send e = Inr b"
  from plain_send_falsy [OF assms this refl]
  show "\<exists>s'. produce c (e # es) queue msg opts s = (Some (Fulfilled (JBool b)), s')
                \<and> trace s' = trace s @
                    [ConnGet,
                     TransportInfo ''amqp:producer'' (''['' @ queue @ ''] > '') JNull,
                     (if truthy (routingKey (given_options opts))
                      then Publish ch queue (routingKey (given_options opts))
                             (parsers_out c JNull (given_options opts))
                             ((given_options opts)\<lparr>persistent := JBool True\<rparr>)
                      else SendToQueue ch queue (parsers_out c JNull (given_options opts))
                             ((given_options opts)\<lparr>persistent := JBool True\<rparr>))]" .
next
  fix o1 n b
  assume h: "opts = Some o1" "conn_get e = Inr ch" "truthy (rpc o1)"
    "amqpRPCQueues s queue = None" "assertQueue e = Inr n" "consume e = Inr ()" "send e = Inr b"
  from rpc_send_falsy [OF assms h(2-7) refl, of c es]
  show "\<exists>s'. produce c (e # es) queue msg opts s
                      = (Some (Follows (length (deferreds s))), s')
                \<and> trace s' = trace s @
                    [ConnGet,
                     TransportInfo ''amqp:producer'' (''['' @ queue @ ''] > '') JNull,
                     AssertQueue ch (queue @ '':'' @ hostname c @ '':res'') True True,
                     Consume ch n queue True,
                     (if truthy (routingKey o1)
                      then Publish ch queue (routingKey o1) (parsers_out c JNull o1)
                             (o1\<lparr>persistent := JBool True, correlationId := JString (uuid_v4 e),
                                 replyTo := JString n\<rparr>)
                      else SendToQueue ch queue (parsers_out c JNull o1)
                             (o1\<lparr>persistent := JBool True, correlationId := JString (uuid_v4 e),
                                 replyTo := JString n\<rparr>))]"
    unfolding h(1) .
qed

text \<open>
  With the codec that shows its payload and the payload NaN: a plain call sends the buffer
  \<open>null\<close> to \<open>queueName\<close>, an RPC call sends it to \<open>service-x\<close>, and a call whose first
  attempt is rejected runs as the call with \<open>null\<close>. The other falsy values are falsy in
  the model.
\<close>

theorem falsy_payload_sent_as_null_witness:
  "\<not> truthy (JNumber NaN)
   \<and> conn_get e_ok = Inr 1
   \<and> \<not> truthy (rpc (given_options None))
   \<and> send e_ok = Inr True
   \<and> produce c1 [e_down, e_ok] ''queueName'' (JNumber NaN) None init
       = produce c1 [e_down, e_ok] ''queueName'' JNull None init
   \<and> (\<exists>s'. produce c1 [e_ok] ''queueName'' (JNumber NaN) None init
               = (Some (Fulfilled (JBool True)), s')
         \<and> trace s' =
             [ConnGet,
              TransportInfo ''amqp:producer'' ''[queueName] > '' JNull,
              SendToQueue 1 ''queueName'' ''null'' default_options])
   \<and> truthy (rpc rpc_options)
   \<and> amqpRPCQueues init ''service-x'' = None
   \<and> assertQueue e_ok = Inr ''service-x:gateway:res''
   \<and> consume e_ok = Inr ()
   \<and> (\<exists>s'. produce c1 [e_ok] ''service-x'' (JNumber NaN) (Some rpc_options) init
               = (Some (Follows 0), s')
         \<and> trace s' =
             [ConnGet,
              TransportInfo ''amqp:producer'' ''[service-x] > '' JNull,
              AssertQueue 1 ''service-x:gateway:res'' True True,
              Consume 1 ''service-x:gateway:res'' ''service-x'' True,
              SendToQueue 1 ''service-x'' ''null''
                (rpc_options\<lparr>correlationId := JString ''c-1'',
                              replyTo := JString ''service-x:gateway:res''\<rparr>)])
   \<and> \<not> truthy JUndefined \<and> \<not> truthy JNull \<and> \<not> truthy (JBool False)
   \<and> \<not> truthy (JString []) \<and> \<not> truthy (JNumber (Finite 0 0)) \<and> \<not> truthy (JNumber NegZero)"
proof -
  have f: "\<not> truthy (JNumber NaN)" by simp
  have g: "conn_get e_ok = Inr 1" by (simp add: e_ok_def)
  have nr: "\<not> truthy (rpc (given_options None))"
    by (simp add: given_options_def default_options_def)
  have sd: "send e_ok = Inr True" by (simp add: e_ok_def)
  have r: "truthy (rpc rpc_options)" by (simp add: rpc_options_def default_options_def)
  have n: "amqpRPCQueues init ''service-x'' = None" by (simp add: init_def)
  have aq: "assertQueue e_ok = Inr ''service-x:gateway:res''" by (simp add: e_ok_def)
  have cs: "consume e_ok = Inr ()" by (simp add: e_ok_def)
  note t1 = falsy_payload_sent_as_null [OF f, of c1 "[e_down, e_ok]" "''queueName''" None init e_ok 1]
  note t2 = falsy_payload_sent_as_null [OF f, of c1 "[]" "''queueName''" None init e_ok 1]
  note t3 = falsy_payload_sent_as_null [OF f, of c1 "[]" "''service-x''" "Some rpc_options" init e_ok 1]
  have 1: "produce c1 [e_down, e_ok] ''queueName'' (JNumber NaN) None init
       = produce c1 [e_down, e_ok] ''queueName'' JNull None init"
    using t1 by (elim conjE)
  from t2 g nr sd have "\<exists>s'. produce c1 [e_ok] ''queueName'' (JNumber NaN) None init
               = (Some (Fulfilled (JBool True)), s')
         \<and> trace s' = trace init @
              [ConnGet,
               TransportInfo ''amqp:producer'' (''['' @ ''queueName'' @ ''] > '') JNull,
               (if truthy (routingKey (given_options None))
                then Publish 1 ''queueName'' (routingKey (given_options None))
                       (parsers_out c1 JNull (given_options None))
                       ((given_options None)\<lparr>persistent := JBool True\<rparr>)
                else SendToQueue 1 ''queueName'' (parsers_out c1 JNull (given_options None))
                       ((given_options None)\<lparr>persistent := JBool True\<rparr>))]"
    by blast
  then have 2: "\<exists>s'. produce c1 [e_ok] ''queueName'' (JNumber NaN) None init
               = (Some (Fulfilled (JBool True)), s')
         \<and> trace s' =
             [ConnGet,
              TransportInfo ''amqp:producer'' ''[queueName] > '' JNull,
              SendToQueue 1 ''queueName'' ''null'' default_options]"
    by (simp add: given_options_def default_options_def c1_def init_def)
  from t3 g r n aq cs sd have "\<exists>s'. produce c1 [e_ok] ''service-x'' (JNumber NaN) (Some rpc_options) init
               = (Some (Follows (length (deferreds init))), s')
         \<and> trace s' = trace init @
             [ConnGet,
              TransportInfo ''amqp:producer'' (''['' @ ''service-x'' @ ''] > '') JNull,
              AssertQueue 1 (''service-x'' @ '':'' @ hostname c1 @ '':res'') True True,
              Consume 1 ''service-x:gateway:res'' ''service-x'' True,
              (if truthy (routingKey rpc_options)
               then Publish 1 ''service-x'' (routingKey rpc_options) (parsers_out c1 JNull rpc_options)
                      (rpc_options\<lparr>persistent := JBool True, correlationId := JString (uuid_v4 e_ok),
                          replyTo := JString ''service-x:gateway:res''\<rparr>)
               else SendToQueue 1 ''service-x'' (parsers_out c1 JNull rpc_options)
                      (rpc_options\<lparr>persistent := JBool True, correlationId := JString (uuid_v4 e_ok),
                          replyTo := JString ''service-x:gateway:res''\<rparr>))]"
    by blast
  then have 3: "\<exists>s'. produce c1 [e_ok] ''service-x'' (JNumber NaN) (Some rpc_options) init
               = (Some (Follows 0), s')
         \<and> trace s' =
             [ConnGet,
              TransportInfo ''amqp:producer'' ''[service-x] > '' JNull,
              AssertQueue 1 ''service-x:gateway:res'' True True,
              Consume 1 ''service-x:gateway:res'' ''service-x'' True,
              SendToQueue 1 ''service-x'' ''null''
                (rpc_options\<lparr>correlationId := JString ''c-1'',
                              replyTo := JString ''service-x:gateway:res''\<rparr>)]"
    by (simp add: demo_defs c1_def)
  have 4: "\<not> truthy JUndefined \<and> \<not> truthy JNull \<and> \<not> truthy (JBool False)
   \<and> \<not> truthy (JString []) \<and> \<not> truthy (JNumber (Finite 0 0)) \<and> \<not> truthy (JNumber NegZero)"
    by simp
  show ?thesis by (intro conjI f g nr sd 1 2 r n aq cs 3 4 [THEN conjunct1]
      4 [THEN conjunct2, THEN conjunct1] 4 [THEN conjunct2, THEN conjunct2, THEN conjunct1]
      4 [THEN conjunct2, THEN conjunct2, THEN conjunct2, THEN conjunct1]
      4 [THEN conjunct2, THEN conjunct2, THEN conjunct2, THEN conjunct2, THEN conjunct1]
      4 [THEN conjunct2, THEN conjunct2, THEN conjunct2, THEN conjunct2, THEN conjunct2])
qed

section \<open>A rejected consumer\<close>

text \<open>
  C9. On the first RPC produce a consumer is to be started on the reply queue before the
  request is sent. \<open>createRpcQueue\<close> stores the queue name (line 21) before it calls
  \<open>consume\<close> (line 26). When the broker rejects \<open>consume\<close>, the attempt is rejected and
  retried; the retry finds the name stored, skips the declaration and the consumer, and
  sends the request with \<open>replyTo\<close> set: the only call of \<open>consume\<close> is the rejected one, and
  no consumer is running when the request goes out.
\<close>

theorem consume_rejected_request_sent:
  "consume e_cfail = Inl (Failure ''closed'')
   \<and> fst (produce c0 [e_cfail, e_ok] ''service-x'' ping (Some rpc_options) init) = Some (Follows 0)
   \<and> trace (snd (produce c0 [e_cfail, e_ok] ''service-x'' ping (Some rpc_options) init)) =
       [ConnGet,
        TransportInfo ''amqp:producer'' ''[service-x] > '' ping,
        AssertQueue 1 ''service-x:gateway:res'' True True,
        Consume 1 ''service-x:gateway:res'' ''service-x'' True,
        TransportError ''amqp:producer'' (Failure ''closed''),
        TimeoutPromise 1000,
        ConnGet,
        TransportInfo ''amqp:producer'' ''[service-x] > '' ping,
        SendToQueue 1 ''service-x'' ''ping''
          (rpc_options\<lparr>correlationId := JString ''c-1'',
                        replyTo := JString ''service-x:gateway:res''\<rparr>)]"
  by (simp add: demo_defs demo2_defs step_defs)

end
